theory Spec2Isabelle
  imports Main "HOL-Library.AList"
begin

chapter \<open>A shallow embedding of the SQL Server MCP lifecycle core\<close>

text \<open>
  The theory embeds five source files of the repository:
  \<^item> \<^verbatim>\<open>src/security/validator.ts\<close> (class SQLValidator),
  \<^item> \<^verbatim>\<open>src/utils/version-manager.ts\<close> (class VersionManager),
  \<^item> \<^verbatim>\<open>src/security/audit-logger.ts\<close> (class AuditLogger),
  \<^item> \<^verbatim>\<open>src/database/transaction-manager.ts\<close> (class TransactionManager),
  \<^item> \<^verbatim>\<open>src/tools/sp-management/sp-draft-manager.ts\<close> (class SPDraftManager).

  Part I holds the definitions, Part II the lemmas and the theorems about them.
  Exceptions are values of a sum type, mutable members are fields of an explicit state
  that every operation returns updated, and everything the database engine decides
  (whether a statement is accepted) is a parameter of the operation that issues it.
\<close>

section \<open>Part I: definitions\<close>

subsection \<open>JavaScript strings\<close>

text \<open>
  A JavaScript string is modelled by the list of its code units, for the ASCII range:
  \<open>trim\<close> removes the ASCII white space (tab, line feed, vertical tab, form feed,
  carriage return, space) and \<open>toUpperCase\<close> maps \<open>a..z\<close> to \<open>A..Z\<close>. Code units of
  128 and above are neither white space nor letters here.
\<close>

definition isSpace :: "char \<Rightarrow> bool" where
  "isSpace c = (c \<in> set [CHR 0x09, CHR 0x0A, CHR 0x0B, CHR 0x0C, CHR 0x0D, CHR 0x20])"

definition lowerLetters :: string where
  "lowerLetters = ''abcdefghijklmnopqrstuvwxyz''"

definition upperLetters :: string where
  "upperLetters = ''ABCDEFGHIJKLMNOPQRSTUVWXYZ''"

definition isLower :: "char \<Rightarrow> bool" where
  "isLower c = (c \<in> set lowerLetters)"

definition isUpper :: "char \<Rightarrow> bool" where
  "isUpper c = (c \<in> set upperLetters)"

definition isDigit :: "char \<Rightarrow> bool" where
  "isDigit c = (c \<in> set ''0123456789'')"

definition toUpper :: "char \<Rightarrow> char" where
  "toUpper c = (case map_of (zip lowerLetters upperLetters) c of None \<Rightarrow> c | Some u \<Rightarrow> u)"

definition isWordChar :: "char \<Rightarrow> bool" where
  "isWordChar c = (isLower c \<or> isUpper c \<or> isDigit c \<or> c = CHR ''_'')"

definition isLineTerminator :: "char \<Rightarrow> bool" where
  "isLineTerminator c = (c = CHR 0x0A \<or> c = CHR 0x0D)"

definition trim :: "string \<Rightarrow> string" where
  "trim s = rev (dropWhile isSpace (rev (dropWhile isSpace s)))"

definition toUpperCase :: "string \<Rightarrow> string" where
  "toUpperCase s = map toUpper s"

definition startsWith :: "string \<Rightarrow> string \<Rightarrow> bool" where
  "startsWith s k = (take (length k) s = k)"

subsection \<open>Regular expressions with the flag i\<close>

text \<open>
  The patterns of the source are written as values of \<open>regex\<close>; every pattern of the
  source carries the flag \<open>i\<close>, so a literal matches without regard to case.
  \<open>Dot\<close> is \<open>.\<close>, \<open>WS\<close> is \<open>\s\<close>, \<open>WordB\<close> is \<open>\b\<close>. A matcher state is the code unit
  before the current position (for \<open>\b\<close>) and the rest of the input; \<open>rmatch r st\<close>
  lists the states a match of \<open>r\<close> starting at \<open>st\<close> can end in, in the order a
  backtracking matcher tries them (a star is greedy), so its head is the match
  \<open>String.prototype.replace\<close> takes. An iteration of a star that consumes nothing is
  not repeated.
\<close>

datatype regex =
    Lit char
  | Dot
  | WS
  | WordB
  | Eps
  | Seq regex regex
  | Alt regex regex
  | Star regex

type_synonym mstate = "char option \<times> string"

fun lits :: "string \<Rightarrow> regex" where
  "lits [] = Eps"
| "lits (c # cs) = Seq (Lit c) (lits cs)"

definition Opt :: "regex \<Rightarrow> regex" where
  "Opt r = Alt r Eps"

definition Plus :: "regex \<Rightarrow> regex" where
  "Plus r = Seq r (Star r)"

definition wordBefore :: "char option \<Rightarrow> bool" where
  "wordBefore p = (case p of None \<Rightarrow> False | Some c \<Rightarrow> isWordChar c)"

definition wordAfter :: "string \<Rightarrow> bool" where
  "wordAfter s = (case s of [] \<Rightarrow> False | c # _ \<Rightarrow> isWordChar c)"

fun star_from :: "(mstate \<Rightarrow> mstate list) \<Rightarrow> nat \<Rightarrow> mstate \<Rightarrow> mstate list" where
  "star_from f 0 st = [st]"
| "star_from f (Suc n) st =
     concat (map (\<lambda>st'. if length (snd st') < length (snd st) then star_from f n st' else [])
                 (f st)) @ [st]"

fun step_char :: "(char \<Rightarrow> bool) \<Rightarrow> mstate \<Rightarrow> mstate list" where
  "step_char P (p, []) = []"
| "step_char P (p, x # xs) = (if P x then [(Some x, xs)] else [])"

primrec rmatch :: "regex \<Rightarrow> mstate \<Rightarrow> mstate list" where
  "rmatch (Lit c) st = step_char (\<lambda>x. toUpper x = toUpper c) st"
| "rmatch Dot st = step_char (\<lambda>x. \<not> isLineTerminator x) st"
| "rmatch WS st = step_char isSpace st"
| "rmatch WordB st = (if wordBefore (fst st) \<noteq> wordAfter (snd st) then [st] else [])"
| "rmatch Eps st = [st]"
| "rmatch (Seq a b) st = concat (map (rmatch b) (rmatch a st))"
| "rmatch (Alt a b) st = rmatch a st @ rmatch b st"
| "rmatch (Star a) st = star_from (rmatch a) (length (snd st)) st"

text \<open>\<open>RegExp.prototype.test\<close> (no flag g, so no state): is there a match at any position.\<close>

fun search :: "regex \<Rightarrow> char option \<Rightarrow> string \<Rightarrow> bool" where
  "search r p [] = (rmatch r (p, []) \<noteq> [])"
| "search r p (x # xs) = (rmatch r (p, x # xs) \<noteq> [] \<or> search r (Some x) xs)"

definition test :: "regex \<Rightarrow> string \<Rightarrow> bool" where
  "test r s = search r None s"

text \<open>
  \<open>String.prototype.replace\<close> with a pattern without the flag g (the leftmost match is
  replaced) and with the flag g (every match, left to right). The replacement is taken
  literally: it holds no \<open>$\<close>. The recursion of \<open>replaceAllFrom\<close> is on a counter that
  \<open>replaceAll\<close> starts above the length of the input, and every step consumes a code unit.
\<close>

fun replaceFirstFrom :: "regex \<Rightarrow> string \<Rightarrow> char option \<Rightarrow> string \<Rightarrow> string" where
  "replaceFirstFrom r rep p [] =
     (case rmatch r (p, []) of [] \<Rightarrow> [] | m # _ \<Rightarrow> rep @ snd m)"
| "replaceFirstFrom r rep p (x # xs) =
     (case rmatch r (p, x # xs) of
        [] \<Rightarrow> x # replaceFirstFrom r rep (Some x) xs
      | m # _ \<Rightarrow> rep @ snd m)"

definition replaceFirst :: "regex \<Rightarrow> string \<Rightarrow> string \<Rightarrow> string" where
  "replaceFirst r rep s = replaceFirstFrom r rep None s"

fun replaceAllFrom :: "nat \<Rightarrow> regex \<Rightarrow> string \<Rightarrow> char option \<Rightarrow> string \<Rightarrow> string" where
  "replaceAllFrom 0 r rep p s = s"
| "replaceAllFrom (Suc fuel) r rep p s =
     (case rmatch r (p, s) of
        [] \<Rightarrow> (case s of [] \<Rightarrow> [] | x # xs \<Rightarrow> x # replaceAllFrom fuel r rep (Some x) xs)
      | m # _ \<Rightarrow>
          if length (snd m) < length s then rep @ replaceAllFrom fuel r rep (fst m) (snd m)
          else (case s of [] \<Rightarrow> rep
                | x # xs \<Rightarrow> rep @ x # replaceAllFrom fuel r rep (Some x) xs))"

definition replaceAll :: "regex \<Rightarrow> string \<Rightarrow> string \<Rightarrow> string" where
  "replaceAll r rep s = replaceAllFrom (Suc (length s)) r rep None s"

subsection \<open>SQLValidator (src/security/validator.ts)\<close>

record ValidationResult =
  valid :: bool
  errors :: "string list"

text \<open>
  The constructor turns each blocked keyword into \<open>new RegExp(`\\b${keyword}\\b`, 'i')\<close>:
  the keyword is spliced into the text of a pattern and compiled with it. For a keyword
  of literal text (\<open>literalText\<close>: letters, digits, the underscore and the space, as in
  the defaults \<open>DROP DATABASE\<close> and \<open>xp_cmdshell\<close>) the compiled pattern is
  \<open>blockedPattern\<close>, the keyword between two word boundaries. A keyword that holds
  characters of the pattern syntax (\<open>|\<close>, \<open>.\<close>, \<open>*\<close>, brackets, ...) is compiled as a
  pattern of its own and is not covered by \<open>blockedPattern\<close>: what is proved of
  \<open>validate\<close> below is proved for blocked keywords of literal text.
  \<open>patternSource\<close> is the \<open>source\<close> of the pattern.
\<close>

definition literalText :: "string \<Rightarrow> bool" where
  "literalText keyword = list_all (\<lambda>c. isWordChar c \<or> c = CHR 0x20) keyword"

definition blockedPattern :: "string \<Rightarrow> regex" where
  "blockedPattern keyword = Seq WordB (Seq (lits keyword) WordB)"

definition patternSource :: "string \<Rightarrow> string" where
  "patternSource keyword = [CHR 0x5C, CHR ''b''] @ keyword @ [CHR 0x5C, CHR ''b'']"

definition suspiciousPatterns :: "regex list" where
  "suspiciousPatterns =
     [ Seq (Lit CHR '';'') (Seq (Star WS) (lits ''DROP'')),
       Seq (Lit CHR '';'') (Seq (Star WS) (lits ''DELETE'')),
       Seq (lits ''EXEC'') (Seq (Star WS) (Lit CHR ''('')),
       lits ''xp_cmdshell'',
       lits ''sp_executesql'',
       Seq (Lit CHR 0x27) (Seq (Star Dot) (Seq (lits ''OR'') (Seq (Star Dot)
         (Seq (Lit CHR 0x27) (Seq (Star Dot) (Lit CHR ''='')))))) ]"

definition containsSuspiciousPattern :: "string \<Rightarrow> bool" where
  "containsSuspiciousPattern sql = list_ex (\<lambda>pattern. test pattern sql) suspiciousPatterns"

definition containsUnsafeDynamicSQL :: "string \<Rightarrow> bool" where
  "containsUnsafeDynamicSQL sql =
     (test (Seq (lits ''EXEC'') (Seq (Opt (lits ''UTE'')) (Seq (Star WS) (Seq (Lit CHR ''('')
             (Seq (Star WS) (Lit CHR ''@'')))))) sql
      \<or> test (Seq (lits ''EXEC'') (Seq (Opt (lits ''UTE'')) (Seq (Plus WS) (Lit CHR ''@'')))) sql)"

definition validate :: "string list \<Rightarrow> string \<Rightarrow> ValidationResult" where
  "validate blockedKeywords sql =
     (let errors0 = concat (map (\<lambda>keyword.
                       if test (blockedPattern keyword) sql
                       then [''Blocked keyword found: '' @ patternSource keyword] else [])
                     blockedKeywords);
          errors1 = errors0 @ (if containsSuspiciousPattern sql
                               then [''SQL contains suspicious patterns''] else []);
          errors2 = errors1 @ (if containsUnsafeDynamicSQL sql
                               then [''Unsafe dynamic SQL detected''] else [])
      in \<lparr> valid = (length errors2 = 0), errors = errors2 \<rparr>)"

definition writeKeywords :: "string list" where
  "writeKeywords = [''INSERT'', ''UPDATE'', ''DELETE'', ''MERGE'', ''TRUNCATE'', ''CREATE'',
                    ''ALTER'', ''DROP'']"

definition isWriteQuery :: "string \<Rightarrow> bool" where
  "isWriteQuery sql =
     (let normalizedSql = toUpperCase (trim sql)
      in list_ex (\<lambda>keyword. startsWith normalizedSql keyword) writeKeywords)"

text \<open>
  For comparison with \<open>isWriteQuery\<close>, the leading verb as the specification words it:
  the first word of the statement once leading white space and comments (\<open>-- ...\<close> to
  the end of the line, \<open>/* ... */\<close>) are skipped. It follows the specification, not the
  source, which has no such function.
\<close>

datatype scanMode = InCode | InLineComment | InBlockComment

fun skipBlanksAndComments :: "scanMode \<Rightarrow> string \<Rightarrow> string" where
  "skipBlanksAndComments InCode [] = []"
| "skipBlanksAndComments InCode [c] = (if isSpace c then [] else [c])"
| "skipBlanksAndComments InCode (c # d # cs) =
     (if isSpace c then skipBlanksAndComments InCode (d # cs)
      else if c = CHR ''-'' \<and> d = CHR ''-'' then skipBlanksAndComments InLineComment cs
      else if c = CHR ''/'' \<and> d = CHR ''*'' then skipBlanksAndComments InBlockComment cs
      else c # d # cs)"
| "skipBlanksAndComments InLineComment [] = []"
| "skipBlanksAndComments InLineComment (c # cs) =
     (if c = CHR 0x0A then skipBlanksAndComments InCode cs
      else skipBlanksAndComments InLineComment cs)"
| "skipBlanksAndComments InBlockComment [] = []"
| "skipBlanksAndComments InBlockComment [c] = []"
| "skipBlanksAndComments InBlockComment (c # d # cs) =
     (if c = CHR ''*'' \<and> d = CHR ''/'' then skipBlanksAndComments InCode cs
      else skipBlanksAndComments InBlockComment (d # cs))"

definition spec_leadingVerb :: "string \<Rightarrow> string" where
  "spec_leadingVerb sql = toUpperCase (takeWhile isWordChar (skipBlanksAndComments InCode sql))"

subsection \<open>VersionManager (src/utils/version-manager.ts)\<close>

text \<open>
  A row of \<open>dbo.SPVersionHistory\<close>. The columns \<open>Id\<close>, \<open>CreatedAt\<close> and \<open>CreatedBy\<close> are
  filled by the engine's defaults and no statement of the source reads them; they are
  left out. The table is the list of its rows in insertion order, and carries no
  uniqueness constraint, as in the \<open>CREATE TABLE\<close> of \<open>ensureVersionTable\<close>. Names are
  compared by equality. \<open>maxVersions\<close> is a natural number.
\<close>

record SPVersionRow =
  SchemaName :: string
  ProcedureName :: string
  Version :: int
  Definition :: string
  Comment :: "string option"

type_synonym history = "SPVersionRow list"

definition sameProcedure :: "string \<Rightarrow> string \<Rightarrow> SPVersionRow \<Rightarrow> bool" where
  "sameProcedure schema name r = (SchemaName r = schema \<and> ProcedureName r = name)"

definition versionsOf :: "string \<Rightarrow> string \<Rightarrow> history \<Rightarrow> int list" where
  "versionsOf schema name tbl = map Version (filter (sameProcedure schema name) tbl)"

definition keptOf :: "string \<Rightarrow> string \<Rightarrow> history \<Rightarrow> history" where
  "keptOf schema name tbl = filter (sameProcedure schema name) tbl"

text \<open>\<open>SELECT ISNULL(MAX(Version), 0) + 1 ... WHERE SchemaName = @schema AND ProcedureName = @name\<close>\<close>

definition versionQuery :: "string \<Rightarrow> string \<Rightarrow> history \<Rightarrow> int" where
  "versionQuery schema name tbl =
     (case versionsOf schema name tbl of [] \<Rightarrow> 0 | v # vs \<Rightarrow> Max (set (v # vs))) + 1"

text \<open>\<open>comment || null\<close>: an absent or empty comment is stored as NULL.\<close>

definition orNull :: "string option \<Rightarrow> string option" where
  "orNull comment = (case comment of None \<Rightarrow> None | Some c \<Rightarrow> if c = [] then None else Some c)"

definition insertQuery ::
  "string \<Rightarrow> string \<Rightarrow> int \<Rightarrow> string \<Rightarrow> string option \<Rightarrow> history \<Rightarrow> history" where
  "insertQuery schema name version defn comment tbl =
     tbl @ [\<lparr> SchemaName = schema, ProcedureName = name, Version = version,
              Definition = defn, Comment = orNull comment \<rparr>]"

text \<open>\<open>SELECT TOP (@maxVersions) Version ... ORDER BY Version DESC\<close>\<close>

definition topVersions :: "nat \<Rightarrow> string \<Rightarrow> string \<Rightarrow> history \<Rightarrow> int list" where
  "topVersions maxVersions schema name tbl =
     take maxVersions (rev (sort (versionsOf schema name tbl)))"

text \<open>\<open>DELETE ... WHERE SchemaName = @schema AND ProcedureName = @name AND Version NOT IN (...)\<close>\<close>

definition cleanupOldVersions :: "nat \<Rightarrow> string \<Rightarrow> string \<Rightarrow> history \<Rightarrow> history" where
  "cleanupOldVersions maxVersions schema name tbl =
     filter (\<lambda>r. \<not> (sameProcedure schema name r
                     \<and> Version r \<notin> set (topVersions maxVersions schema name tbl))) tbl"

text \<open>\<open>saveVersion\<close> when each of its three statements is accepted by the engine.\<close>

definition saveVersion ::
  "nat \<Rightarrow> string \<Rightarrow> string \<Rightarrow> string \<Rightarrow> string option \<Rightarrow> history \<Rightarrow> int \<times> history" where
  "saveVersion maxVersions schema name defn comment tbl =
     (let nextVersion = versionQuery schema name tbl;
          tbl1 = insertQuery schema name nextVersion defn comment tbl;
          tbl2 = cleanupOldVersions maxVersions schema name tbl1
      in (nextVersion, tbl2))"

text \<open>A caller that awaits each \<open>saveVersion\<close> before it issues the next.\<close>

fun saveVersionsInTurn ::
  "nat \<Rightarrow> string \<Rightarrow> string \<Rightarrow> (string \<times> string option) list \<Rightarrow> history \<Rightarrow> int list \<times> history" where
  "saveVersionsInTurn maxVersions schema name [] tbl = ([], tbl)"
| "saveVersionsInTurn maxVersions schema name (dc # rest) tbl =
     (let (v, tbl1) = saveVersion maxVersions schema name (fst dc) (snd dc) tbl;
          (vs, tbl2) = saveVersionsInTurn maxVersions schema name rest tbl1
      in (v # vs, tbl2))"

text \<open>
  Calls in flight together. \<open>saveVersion\<close> is an \<open>async\<close> function that awaits each of
  its three statements, and nothing in it (no transaction, no lock) ties them together:
  between two statements of one call the statements of another call can run. A call is
  at one of four points; a schedule names, step by step, the call that runs its next
  statement.
\<close>

datatype savePc = AtVersionQuery | AtInsert int | AtCleanup int | Returned int

record saveCall =
  callSchema :: string
  callName :: string
  callDefinition :: string
  callComment :: "string option"

fun saveStep :: "nat \<Rightarrow> saveCall \<Rightarrow> savePc \<Rightarrow> history \<Rightarrow> savePc \<times> history" where
  "saveStep maxVersions c AtVersionQuery tbl =
     (AtInsert (versionQuery (callSchema c) (callName c) tbl), tbl)"
| "saveStep maxVersions c (AtInsert v) tbl =
     (AtCleanup v, insertQuery (callSchema c) (callName c) v (callDefinition c) (callComment c) tbl)"
| "saveStep maxVersions c (AtCleanup v) tbl =
     (Returned v, cleanupOldVersions maxVersions (callSchema c) (callName c) tbl)"
| "saveStep maxVersions c (Returned v) tbl = (Returned v, tbl)"

fun runSchedule ::
  "nat \<Rightarrow> nat list \<Rightarrow> (saveCall \<times> savePc) list \<Rightarrow> history \<Rightarrow> (saveCall \<times> savePc) list \<times> history" where
  "runSchedule maxVersions [] calls tbl = (calls, tbl)"
| "runSchedule maxVersions (i # sched) calls tbl =
     (if i < length calls
      then (let (c, pc) = calls ! i;
                (pc', tbl') = saveStep maxVersions c pc tbl
            in runSchedule maxVersions sched (calls[i := (c, pc')]) tbl')
      else runSchedule maxVersions sched calls tbl)"

definition twoConcurrentSaves :: "(saveCall \<times> savePc) list" where
  "twoConcurrentSaves =
     [(\<lparr>callSchema = ''dbo'', callName = ''p'', callDefinition = ''A'', callComment = None\<rparr>,
       AtVersionQuery),
      (\<lparr>callSchema = ''dbo'', callName = ''p'', callDefinition = ''B'', callComment = None\<rparr>,
       AtVersionQuery)]"

text \<open>
  The table that two calls in flight together leave behind, with a retention count of 2:
  the statements of the two calls alternate.
\<close>

definition afterConcurrentSaves :: history where
  "afterConcurrentSaves = snd (runSchedule 2 [0, 1, 0, 1, 0, 1] twoConcurrentSaves [])"

definition exampleHistory :: history where
  "exampleHistory =
     [\<lparr>SchemaName = ''dbo'', ProcedureName = ''p'', Version = 1, Definition = ''A'', Comment = None\<rparr>,
      \<lparr>SchemaName = ''dbo'', ProcedureName = ''q'', Version = 1, Definition = ''Q'', Comment = None\<rparr>,
      \<lparr>SchemaName = ''dbo'', ProcedureName = ''p'', Version = 2, Definition = ''B'', Comment = None\<rparr>]"

subsection \<open>AuditLogger (src/security/audit-logger.ts)\<close>

text \<open>
  \<open>AuditInput\<close> is \<open>Omit<AuditEntry, 'timestamp'>\<close>, the argument of \<open>log\<close>. The state of
  the logger is its \<open>buffer\<close>, the entries appended to the log file so far (one line per
  entry) and the messages given to \<open>logger.error\<close>. Whether \<open>fs.appendFile\<close> (or the
  serialisation before it, inside the same \<open>try\<close>) fails is the parameter \<open>writeFails\<close>.
  An \<open>async\<close> function ends in a promise that is resolved or rejected.
\<close>

record AuditInput =
  operation :: string
  user :: string
  details :: string
  success :: bool
  error :: "string option"

record AuditEntry =
  timestamp :: int
  input :: AuditInput

record AuditLogger =
  buffer :: "AuditEntry list"
  logFile :: "AuditEntry list"
  errorLog :: "string list"

datatype promise = Resolved | Rejected string

text \<open>
  \<open>flush\<close> takes the batch out of the buffer, then awaits the write; \<open>flushWrite\<close> is
  its \<open>try\<close>/\<open>catch\<close>, run on the logger as it is when the write has ended (entries
  recorded while the write was awaited are in its buffer).
\<close>

definition flushWrite :: "bool \<Rightarrow> AuditEntry list \<Rightarrow> AuditLogger \<Rightarrow> promise \<times> AuditLogger" where
  "flushWrite writeFails entries lg =
     (if writeFails
      then (Resolved, lg\<lparr> errorLog := errorLog lg @ [''Failed to write audit log''],
                          buffer := entries @ buffer lg \<rparr>)
      else (Resolved, lg\<lparr> logFile := logFile lg @ entries \<rparr>))"

definition flush :: "bool \<Rightarrow> AuditLogger \<Rightarrow> promise \<times> AuditLogger" where
  "flush writeFails lg =
     (if length (buffer lg) = 0 then (Resolved, lg)
      else (let entries = buffer lg;
                lg1 = lg\<lparr> buffer := [] \<rparr>
            in flushWrite writeFails entries lg1))"

text \<open>\<open>AuditLogger.log\<close>; \<open>now\<close> is the value of \<open>new Date()\<close>.\<close>

definition auditLog ::
  "nat \<Rightarrow> bool \<Rightarrow> int \<Rightarrow> AuditInput \<Rightarrow> AuditLogger \<Rightarrow> promise \<times> AuditLogger" where
  "auditLog bufferSize writeFails now e lg =
     (let lg1 = lg\<lparr> buffer := buffer lg @ [\<lparr> timestamp = now, input = e \<rparr>] \<rparr>
      in if length (buffer lg1) \<ge> bufferSize then flush writeFails lg1 else (Resolved, lg1))"

definition exampleInput :: "string \<Rightarrow> AuditInput" where
  "exampleInput opName =
     \<lparr> operation = opName, user = ''mcp-user'', details = ''{}'', success = True, error = None \<rparr>"

definition exampleLogger :: AuditLogger where
  "exampleLogger =
     \<lparr> buffer = [\<lparr> timestamp = 1, input = exampleInput ''deploy_sp'' \<rparr>,
                 \<lparr> timestamp = 2, input = exampleInput ''rollback_sp'' \<rparr>],
       logFile = [], errorLog = [] \<rparr>"

subsection \<open>The database and the state of the managers\<close>

text \<open>
  \<open>site\<close> names the places where the source hands a statement to the engine (through
  \<open>QueryExecutor\<close> on the read-only pool, or through a \<open>sql.Transaction\<close>). Whether the
  engine accepts the statement issued at a site is not decided by the source; it is the
  parameter \<open>engineFails\<close> of the operations below. A statement that is rejected has no
  effect. A statement of a transaction takes effect on the stored procedures when the
  transaction commits, and not at all when it does not (the engine's own guarantee).
\<close>

datatype site =
    ReadDraftDefinition
  | ReadCurrentDefinition
  | EnsureVersionTable
  | NextVersionQuery
  | InsertVersionRow
  | CleanupVersions
  | ReadVersion
  | ReadLatestVersion
  | DropDraft
  | TxBegin
  | TxDrop
  | TxCreate
  | TxRestore
  | TxCommit
  | TxRollback

datatype failure =
    TransactionNotFound string
  | EngineError site
  | DraftNotFound string
  | NoVersionFound

text \<open>
  The statements the source runs inside a transaction: the batch
  \<open>IF EXISTS (... OBJECT_ID(@fullName)) BEGIN DROP PROCEDURE schema.name END\<close>, and a
  text passed as it is (\<open>None\<close> when the JavaScript value passed is \<open>undefined\<close>).
\<close>

datatype stmt =
    DropProcedureIfExists string string
  | Batch "string option"

record Transaction =
  txnId :: string
  connection :: string
  startTime :: int
  queries :: "stmt list"

text \<open>
  \<open>procedures\<close> is \<open>sys.procedures\<close> with \<open>OBJECT_DEFINITION\<close>: the text of the committed
  procedure (schema, name), drafts included (a draft is a procedure of the draft
  schema). \<open>resolveTarget\<close> is the engine's reading of a \<open>CREATE PROCEDURE\<close> text: the
  (schema, name) it creates, or \<open>None\<close> when the text creates no procedure.
  \<open>activeTransactions\<close> is the \<open>Map\<close> of the TransactionManager in insertion order,
  \<open>versionTableExists\<close> the flag of the VersionManager, \<open>events\<close> the statements handed
  to the engine so far, in order, each with whether it was accepted, and \<open>logLines\<close> the
  messages given to \<open>logger.warn\<close> and \<open>logger.error\<close>.
\<close>

record world =
  procedures :: "string \<times> string \<Rightarrow> string option"
  resolveTarget :: "string \<Rightarrow> (string \<times> string) option"
  versionHistory :: history
  versionTableExists :: bool
  activeTransactions :: "(string \<times> Transaction) list"
  events :: "(site \<times> bool) list"
  logLines :: "string list"

type_synonym 'a io = "world \<Rightarrow> (failure + 'a) \<times> world"

definition returnIO :: "'a \<Rightarrow> 'a io" where
  "returnIO x w = (Inr x, w)"

definition throwIO :: "failure \<Rightarrow> 'a io" where
  "throwIO e w = (Inl e, w)"

definition andThen :: "'a io \<Rightarrow> ('a \<Rightarrow> 'b io) \<Rightarrow> 'b io" where
  "andThen m k w = (case m w of (Inl e, w') \<Rightarrow> (Inl e, w') | (Inr x, w') \<Rightarrow> k x w')"

definition tryCatch :: "'a io \<Rightarrow> (failure \<Rightarrow> 'a io) \<Rightarrow> 'a io" where
  "tryCatch m handler w = (case m w of (Inl e, w') \<Rightarrow> handler e w' | (Inr x, w') \<Rightarrow> (Inr x, w'))"

definition logLine :: "string \<Rightarrow> world \<Rightarrow> world" where
  "logLine msg w = w\<lparr> logLines := logLines w @ [msg] \<rparr>"

definition noteEvent :: "site \<Rightarrow> bool \<Rightarrow> world \<Rightarrow> world" where
  "noteEvent s accepted w = w\<lparr> events := events w @ [(s, accepted)] \<rparr>"

fun applyStmt :: "(string \<Rightarrow> (string \<times> string) option) \<Rightarrow> (string \<times> string \<Rightarrow> string option) \<Rightarrow> stmt
    \<Rightarrow> (string \<times> string \<Rightarrow> string option)" where
  "applyStmt resolve ps (DropProcedureIfExists schema name) = ps((schema, name) := None)"
| "applyStmt resolve ps (Batch None) = ps"
| "applyStmt resolve ps (Batch (Some text)) =
     (case resolve text of None \<Rightarrow> ps | Some target \<Rightarrow> ps(target \<mapsto> text))"

subsection \<open>TransactionManager (src/database/transaction-manager.ts)\<close>

definition TRANSACTION_TIMEOUT :: int where
  "TRANSACTION_TIMEOUT = 300000"

definition SWEEP_INTERVAL :: int where
  "SWEEP_INTERVAL = 60000"

text \<open>
  Each operation takes \<open>engineFails\<close>: whether the engine rejects the call the operation
  awaits (\<open>transaction.begin()\<close>, \<open>request.query(query)\<close>, \<open>transaction.commit()\<close>,
  \<open>transaction.rollback()\<close>). \<open>execute\<close> also takes the site its statement is issued
  at, for the record of events. The read-write pool is configured, so that
  \<open>getReadwritePool\<close> does not throw. \<open>logger.info\<close> is not recorded.

  \<open>begin\<close>: \<open>transactionId\<close> is the value of \<open>generateId()\<close> and \<open>now\<close> that of
  \<open>new Date()\<close>.
\<close>

definition txBegin :: "bool \<Rightarrow> string \<Rightarrow> int \<Rightarrow> string io" where
  "txBegin engineFails transactionId now w =
     (if engineFails
      then (Inl (EngineError TxBegin),
            logLine ''Failed to start transaction'' (noteEvent TxBegin False w))
      else (Inr transactionId,
            (noteEvent TxBegin True w)\<lparr> activeTransactions :=
               AList.update transactionId
                 \<lparr> txnId = transactionId, connection = ''readwrite'', startTime = now,
                   queries = [] \<rparr>
                 (activeTransactions w) \<rparr>))"

definition txExecute :: "bool \<Rightarrow> site \<Rightarrow> string \<Rightarrow> stmt \<Rightarrow> unit io" where
  "txExecute engineFails at transactionId query w =
     (case map_of (activeTransactions w) transactionId of
        None \<Rightarrow> (Inl (TransactionNotFound transactionId), w)
      | Some txn \<Rightarrow>
          if engineFails
          then (Inl (EngineError at), logLine ''Query failed in transaction'' (noteEvent at False w))
          else (Inr (),
                (noteEvent at True w)\<lparr> activeTransactions :=
                   AList.update transactionId (txn\<lparr> queries := queries txn @ [query] \<rparr>)
                     (activeTransactions w) \<rparr>))"

definition txCommit :: "bool \<Rightarrow> string \<Rightarrow> unit io" where
  "txCommit engineFails transactionId w =
     (case map_of (activeTransactions w) transactionId of
        None \<Rightarrow> (Inl (TransactionNotFound transactionId), w)
      | Some txn \<Rightarrow>
          if engineFails
          then (Inl (EngineError TxCommit),
                logLine ''Failed to commit transaction'' (noteEvent TxCommit False w))
          else (Inr (),
                (noteEvent TxCommit True w)\<lparr>
                   procedures := foldl (applyStmt (resolveTarget w)) (procedures w) (queries txn),
                   activeTransactions := AList.delete transactionId (activeTransactions w) \<rparr>))"

definition txRollback :: "bool \<Rightarrow> string \<Rightarrow> unit io" where
  "txRollback engineFails transactionId w =
     (case map_of (activeTransactions w) transactionId of
        None \<Rightarrow> (Inl (TransactionNotFound transactionId), w)
      | Some txn \<Rightarrow>
          if engineFails
          then (Inl (EngineError TxRollback),
                logLine ''Failed to rollback transaction'' (noteEvent TxRollback False w))
          else (Inr (),
                (noteEvent TxRollback True w)\<lparr>
                   activeTransactions := AList.delete transactionId (activeTransactions w) \<rparr>))"

text \<open>
  The body of the loop of \<open>cleanupTimedOutTransactions\<close> for one entry of the map, and
  the loop over the entries. \<open>rollbackFails id\<close> says whether the engine rejects the
  rollback of transaction \<open>id\<close>. The \<open>catch\<close> on the promise of \<open>rollback\<close> turns every
  failure into a log line, so the sweep has no failure to return.
\<close>

definition sweepEntry :: "(string \<Rightarrow> bool) \<Rightarrow> int \<Rightarrow> string \<times> Transaction \<Rightarrow> world \<Rightarrow> world" where
  "sweepEntry rollbackFails now e w =
     (if now - startTime (snd e) > TRANSACTION_TIMEOUT
      then (case txRollback (rollbackFails (fst e)) (fst e)
                   (logLine ''Transaction timed out, rolling back'' w) of
              (Inl err, w') \<Rightarrow> logLine ''Failed to rollback timed out transaction'' w'
            | (Inr u, w') \<Rightarrow> w')
      else w)"

definition cleanupTimedOutTransactions :: "(string \<Rightarrow> bool) \<Rightarrow> int \<Rightarrow> world \<Rightarrow> world" where
  "cleanupTimedOutTransactions rollbackFails now w =
     foldl (\<lambda>w' e. sweepEntry rollbackFails now e w') w (activeTransactions w)"

text \<open>
  The constructor starts \<open>setInterval(..., 60000)\<close>: the sweep fires at
  \<open>constructedAt + k * 60000\<close> for \<open>k = 1, 2, ...\<close>. \<open>dueSweep\<close> is the index of the first
  firing that finds a transaction started at \<open>start\<close> older than the timeout.
\<close>

definition sweepTime :: "int \<Rightarrow> nat \<Rightarrow> int" where
  "sweepTime constructedAt k = constructedAt + int k * SWEEP_INTERVAL"

definition dueSweep :: "int \<Rightarrow> int \<Rightarrow> nat" where
  "dueSweep constructedAt start =
     nat ((start + TRANSACTION_TIMEOUT - constructedAt) div SWEEP_INTERVAL) + 1"

subsection \<open>SPDraftManager (src/tools/sp-management/sp-draft-manager.ts)\<close>

record config =
  draftSchema :: string
  maxVersions :: nat

text \<open>
  What a call depends on beyond the state: which sites the engine rejects during the
  call, the identifier \<open>generateId()\<close> returns and the time.
\<close>

record env =
  engineFails :: "site \<Rightarrow> bool"
  newTransactionId :: string
  clock :: int

text \<open>
  \<open>QueryExecutor.executeReadOnly\<close>: the statement of site \<open>at\<close> is run; when the engine
  rejects it the failure is logged and thrown, otherwise \<open>result\<close> is returned and
  \<open>effect\<close> has been applied.
\<close>

definition runQuery :: "env \<Rightarrow> site \<Rightarrow> (world \<Rightarrow> 'a) \<Rightarrow> (world \<Rightarrow> world) \<Rightarrow> 'a io" where
  "runQuery e at result effect w =
     (if engineFails e at
      then (Inl (EngineError at), logLine ''Query execution failed'' (noteEvent at False w))
      else (Inr (result w), effect (noteEvent at True w)))"

text \<open>JavaScript truthiness of \<open>string | null\<close>: \<open>null\<close> and the empty string are falsy.\<close>

definition truthy :: "string option \<Rightarrow> bool" where
  "truthy d = (case d of None \<Rightarrow> False | Some s \<Rightarrow> s \<noteq> [])"

text \<open>
  \<open>getDraftDefinition\<close> and \<open>getCurrentDefinition\<close>: \<open>try { return await executeScalar(...) }
  catch { return null }\<close>. A failure of the query is swallowed and read as \<open>null\<close>.
\<close>

definition getDraftDefinition :: "env \<Rightarrow> config \<Rightarrow> string \<Rightarrow> string option io" where
  "getDraftDefinition e cfg name =
     tryCatch (runQuery e ReadDraftDefinition (\<lambda>w. procedures w (draftSchema cfg, name)) id)
              (\<lambda>err. returnIO None)"

definition getCurrentDefinition :: "env \<Rightarrow> string \<Rightarrow> string \<Rightarrow> string option io" where
  "getCurrentDefinition e schema name =
     tryCatch (runQuery e ReadCurrentDefinition (\<lambda>w. procedures w (schema, name)) id)
              (\<lambda>err. returnIO None)"

definition deleteDraft :: "env \<Rightarrow> config \<Rightarrow> string \<Rightarrow> unit io" where
  "deleteDraft e cfg name =
     runQuery e DropDraft (\<lambda>w. ())
       (\<lambda>w. w\<lparr> procedures := (procedures w)((draftSchema cfg, name) := None) \<rparr>)"

text \<open>
  \<open>rewriteForProductionSchema\<close>. The draft schema and the schema are identifiers: they
  hold no character that is special in a pattern or in a replacement.
\<close>

definition rewriteForProductionSchema :: "config \<Rightarrow> string \<Rightarrow> string \<Rightarrow> string \<Rightarrow> string" where
  "rewriteForProductionSchema cfg defn schema name =
     replaceFirst (Seq (lits ''CREATE'') (Seq (Plus WS) (lits ''PROCEDURE''))) ''CREATE PROCEDURE''
       (replaceAll (Seq (lits (draftSchema cfg)) (Lit CHR ''.'')) (schema @ ''.'') defn)"

text \<open>\<open>VersionManager.ensureVersionTable\<close> and \<open>VersionManager.saveVersion\<close>, statement by statement.\<close>

definition ensureVersionTable :: "env \<Rightarrow> unit io" where
  "ensureVersionTable e w =
     (if versionTableExists w then returnIO () w
      else runQuery e EnsureVersionTable (\<lambda>w. ()) (\<lambda>w. w\<lparr> versionTableExists := True \<rparr>) w)"

definition saveVersionIO ::
  "env \<Rightarrow> config \<Rightarrow> string \<Rightarrow> string \<Rightarrow> string \<Rightarrow> string option \<Rightarrow> int io" where
  "saveVersionIO e cfg schema name defn comment =
     andThen (ensureVersionTable e) (\<lambda>u.
     andThen (runQuery e NextVersionQuery (\<lambda>w. versionQuery schema name (versionHistory w)) id)
       (\<lambda>nextVersion.
     andThen (runQuery e InsertVersionRow (\<lambda>w. ())
                (\<lambda>w. w\<lparr> versionHistory :=
                          insertQuery schema name nextVersion defn comment (versionHistory w) \<rparr>))
       (\<lambda>u.
     andThen (runQuery e CleanupVersions (\<lambda>w. ())
                (\<lambda>w. w\<lparr> versionHistory :=
                          cleanupOldVersions (maxVersions cfg) schema name (versionHistory w) \<rparr>))
       (\<lambda>u. returnIO nextVersion))))"

text \<open>
  \<open>deployDraft\<close> in two parts. \<open>deployBackup\<close> is the source up to and including the
  call of \<open>saveVersion\<close> (it returns the draft's definition); \<open>deploySwap\<close> is the rest:
  the rewrite, \<open>begin\<close>, the \<open>try\<close> block \<open>deployTry\<close> and the \<open>catch\<close> block.
\<close>

definition commentOrDefault :: "string option \<Rightarrow> string" where
  "commentOrDefault comment =
     (case comment of None \<Rightarrow> ''Pre-deployment backup''
      | Some c \<Rightarrow> if c = [] then ''Pre-deployment backup'' else c)"

definition deployBackup :: "env \<Rightarrow> config \<Rightarrow> string \<Rightarrow> string \<Rightarrow> string option \<Rightarrow> string io" where
  "deployBackup e cfg schema name comment =
     andThen (getDraftDefinition e cfg name) (\<lambda>draftDefinition.
       case draftDefinition of
         None \<Rightarrow> throwIO (DraftNotFound name)
       | Some draftText \<Rightarrow>
           if draftText = [] then throwIO (DraftNotFound name)
           else andThen (getCurrentDefinition e schema name) (\<lambda>currentDefinition.
                  case currentDefinition of
                    None \<Rightarrow> returnIO draftText
                  | Some currentText \<Rightarrow>
                      if currentText = [] then returnIO draftText
                      else andThen (saveVersionIO e cfg schema name currentText
                                      (Some (commentOrDefault comment)))
                             (\<lambda>v. returnIO draftText)))"

definition deployTry :: "env \<Rightarrow> config \<Rightarrow> string \<Rightarrow> string \<Rightarrow> string \<Rightarrow> string \<Rightarrow> unit io" where
  "deployTry e cfg schema name productionDefinition transactionId =
     andThen (txExecute (engineFails e TxDrop) TxDrop transactionId
                (DropProcedureIfExists schema name)) (\<lambda>u.
     andThen (txExecute (engineFails e TxCreate) TxCreate transactionId
                (Batch (Some productionDefinition))) (\<lambda>u.
     andThen (txCommit (engineFails e TxCommit) transactionId) (\<lambda>u.
     deleteDraft e cfg name)))"

definition deploySwap :: "env \<Rightarrow> config \<Rightarrow> string \<Rightarrow> string \<Rightarrow> string \<Rightarrow> unit io" where
  "deploySwap e cfg schema name draftText =
     (let productionDefinition = rewriteForProductionSchema cfg draftText schema name
      in andThen (txBegin (engineFails e TxBegin) (newTransactionId e) (clock e)) (\<lambda>transactionId.
           tryCatch (deployTry e cfg schema name productionDefinition transactionId)
             (\<lambda>err. andThen (txRollback (engineFails e TxRollback) transactionId)
                       (\<lambda>u. throwIO err))))"

definition deployDraft :: "env \<Rightarrow> config \<Rightarrow> string \<Rightarrow> string \<Rightarrow> string option \<Rightarrow> unit io" where
  "deployDraft e cfg schema name comment =
     andThen (deployBackup e cfg schema name comment) (deploySwap e cfg schema name)"

text \<open>
  A row as \<open>executeReadOnly\<close> returns it: an object whose keys are the column names of
  the \<open>SELECT\<close> list, as written there (\<open>Version\<close>, \<open>Definition\<close>, \<open>Comment\<close>; the columns
  \<open>CreatedAt\<close> and \<open>CreatedBy\<close> are left out as in the table). Reading a property is the
  search for the key, which distinguishes case; a missing key reads as \<open>undefined\<close>
  (\<open>None\<close>).
\<close>

datatype jsValue = JsNumber int | JsString string | JsNull

type_synonym jsObject = "(string \<times> jsValue) list"

definition rowObject :: "SPVersionRow \<Rightarrow> jsObject" where
  "rowObject r =
     [ (''Version'', JsNumber (Version r)),
       (''Definition'', JsString (Definition r)),
       (''Comment'', case Comment r of None \<Rightarrow> JsNull | Some c \<Rightarrow> JsString c) ]"

definition property :: "jsObject \<Rightarrow> string \<Rightarrow> jsValue option" where
  "property obj key = map_of obj key"

definition queryText :: "jsValue option \<Rightarrow> string option" where
  "queryText v = (case v of Some (JsString s) \<Rightarrow> Some s | _ \<Rightarrow> None)"

text \<open>\<open>getVersion\<close> and \<open>getLatestVersion\<close> (\<open>SELECT TOP 1 ... ORDER BY Version DESC\<close>).\<close>

definition getVersion :: "env \<Rightarrow> string \<Rightarrow> string \<Rightarrow> int \<Rightarrow> jsObject option io" where
  "getVersion e schema name version =
     runQuery e ReadVersion
       (\<lambda>w. case filter (\<lambda>r. Version r = version) (keptOf schema name (versionHistory w)) of
               [] \<Rightarrow> None | r # rs \<Rightarrow> Some (rowObject r))
       id"

definition latestRow :: "SPVersionRow list \<Rightarrow> SPVersionRow option" where
  "latestRow rows =
     (case rows of [] \<Rightarrow> None
      | r # rs \<Rightarrow> Some (foldl (\<lambda>best x. if Version best < Version x then x else best) r rs))"

definition getLatestVersion :: "env \<Rightarrow> string \<Rightarrow> string \<Rightarrow> jsObject option io" where
  "getLatestVersion e schema name =
     runQuery e ReadLatestVersion
       (\<lambda>w. map_option rowObject (latestRow (keptOf schema name (versionHistory w))))
       id"

text \<open>\<open>SPDraftManager.rollback\<close>; \<open>if (version)\<close> is false for an absent version and for 0.\<close>

definition rollbackTry :: "env \<Rightarrow> string \<Rightarrow> string \<Rightarrow> jsObject \<Rightarrow> string \<Rightarrow> unit io" where
  "rollbackTry e schema name versionToRestore transactionId =
     andThen (txExecute (engineFails e TxDrop) TxDrop transactionId
                (DropProcedureIfExists schema name)) (\<lambda>u.
     andThen (txExecute (engineFails e TxRestore) TxRestore transactionId
                (Batch (queryText (property versionToRestore ''definition'')))) (\<lambda>u.
     txCommit (engineFails e TxCommit) transactionId))"

definition rollback :: "env \<Rightarrow> string \<Rightarrow> string \<Rightarrow> int option \<Rightarrow> unit io" where
  "rollback e schema name version =
     andThen (case version of
                None \<Rightarrow> getLatestVersion e schema name
              | Some v \<Rightarrow> if v = 0 then getLatestVersion e schema name
                          else getVersion e schema name v)
       (\<lambda>versionToRestore.
          case versionToRestore of
            None \<Rightarrow> throwIO NoVersionFound
          | Some row \<Rightarrow>
              andThen (txBegin (engineFails e TxBegin) (newTransactionId e) (clock e))
                (\<lambda>transactionId.
                   tryCatch (rollbackTry e schema name row transactionId)
                     (\<lambda>err. andThen (txRollback (engineFails e TxRollback) transactionId)
                               (\<lambda>u. throwIO err))))"

subsection \<open>Order of events\<close>

text \<open>
  \<open>noneBefore a P evs\<close>: in the sequence \<open>evs\<close> no event that satisfies \<open>P\<close> occurs
  before the first occurrence of \<open>a\<close> (and none at all when \<open>a\<close> does not occur).
  \<open>eventsSince w w'\<close> are the events of \<open>w'\<close> that \<open>w\<close> does not have yet.
\<close>

fun noneBefore :: "'a \<Rightarrow> ('a \<Rightarrow> bool) \<Rightarrow> 'a list \<Rightarrow> bool" where
  "noneBefore a P [] = True"
| "noneBefore a P (x # xs) = (x = a \<or> (\<not> P x \<and> noneBefore a P xs))"

definition eventsSince :: "world \<Rightarrow> world \<Rightarrow> (site \<times> bool) list" where
  "eventsSince w w' = drop (length (events w)) (events w')"

definition inTransaction :: "site \<times> bool \<Rightarrow> bool" where
  "inTransaction ev = (fst ev \<in> set [TxBegin, TxDrop, TxCreate, TxRestore, TxCommit, TxRollback])"


subsection \<open>Example states\<close>

text \<open>
  For the examples the engine reads the target of a text of the form
  \<open>CREATE PROCEDURE schema.name ...\<close> off its header.
\<close>

definition headerTarget :: "string \<Rightarrow> (string \<times> string) option" where
  "headerTarget txt =
     (if startsWith (toUpperCase txt) ''CREATE PROCEDURE ''
      then (let rest = drop 17 txt;
                schema = takeWhile isWordChar rest;
                name = takeWhile isWordChar (drop (length schema + 1) rest)
            in Some (schema, name))
      else None)"

definition exampleConfig :: config where
  "exampleConfig = \<lparr> draftSchema = ''dbo_draft'', maxVersions = 5 \<rparr>"

definition failingAt :: "site list \<Rightarrow> string \<Rightarrow> env" where
  "failingAt sites transactionId =
     \<lparr> engineFails = (\<lambda>s. s \<in> set sites), newTransactionId = transactionId, clock = 0 \<rparr>"

definition emptyWorld :: world where
  "emptyWorld =
     \<lparr> procedures = Map.empty, resolveTarget = headerTarget, versionHistory = [],
       versionTableExists = False, activeTransactions = [], events = [], logLines = [] \<rparr>"

definition withProcedure :: "string \<Rightarrow> string \<Rightarrow> string \<Rightarrow> world \<Rightarrow> world" where
  "withProcedure schema name txt w = w\<lparr> procedures := (procedures w)((schema, name) \<mapsto> txt) \<rparr>"

definition oneTransaction :: world where
  "oneTransaction = emptyWorld\<lparr> activeTransactions :=
     [(''t1'', \<lparr> txnId = ''t1'', connection = ''readwrite'', startTime = 0, queries = [] \<rparr>)] \<rparr>"


definition draftA :: string where
  "draftA = ''CREATE PROCEDURE dbo_draft.p AS SELECT 1''"

definition draftB :: string where
  "draftB = ''CREATE PROCEDURE dbo_draft.p AS SELECT 2''"

definition bodyA :: string where
  "bodyA = ''CREATE PROCEDURE dbo.p AS SELECT 1''"

definition bodyB :: string where
  "bodyB = ''CREATE PROCEDURE dbo.p AS SELECT 2''"

definition stateAB :: world where
  "stateAB = withProcedure ''dbo_draft'' ''p'' draftB (withProcedure ''dbo'' ''p'' bodyA emptyWorld)"

definition afterDeployA :: world where
  "afterDeployA = snd (deployDraft (failingAt [] ''t1'') exampleConfig ''dbo'' ''p'' None
                         (withProcedure ''dbo_draft'' ''p'' draftA emptyWorld))"

definition afterDeployAB :: world where
  "afterDeployAB = snd (deployDraft (failingAt [] ''t2'') exampleConfig ''dbo'' ''p'' None
                          (withProcedure ''dbo_draft'' ''p'' draftB afterDeployA))"


section \<open>Part II: lemmas and theorems\<close>

subsection \<open>SQLValidator\<close>

lemma blocked_keyword_not_in_empty: "test (blockedPattern keyword) [] = False"
  by (simp add: test_def blockedPattern_def wordBefore_def wordAfter_def)

lemma no_error_for_empty_input:
  "concat (map (\<lambda>keyword. if test (blockedPattern keyword) []
                 then [''Blocked keyword found: '' @ patternSource keyword] else []) kws) = []"
  by (induction kws) (simp_all add: blocked_keyword_not_in_empty)

lemma empty_input_not_suspicious: "containsSuspiciousPattern [] = False"
  by (simp add: containsSuspiciousPattern_def suspiciousPatterns_def test_def)

lemma empty_input_not_dynamic: "containsUnsafeDynamicSQL [] = False"
  by (simp add: containsUnsafeDynamicSQL_def test_def Opt_def Plus_def)

text \<open>
  Claim C4, as the code has it. For blocked keywords of literal text, \<open>validate\<close> is a
  total function: for every input it returns a result whose flag \<open>valid\<close> says that the
  list of reasons is empty. For the empty input no pattern matches, so the result is
  \<open>valid = true\<close> with no reason: the source has no check for an empty statement.
\<close>

theorem validate_total_empty_input_valid:
  assumes "list_all literalText kws"
  shows "valid (validate kws sql) = (errors (validate kws sql) = [])
       \<and> validate kws [] = \<lparr> valid = True, errors = [] \<rparr>"
  by (simp add: validate_def Let_def no_error_for_empty_input empty_input_not_suspicious
      empty_input_not_dynamic)

theorem validate_total_empty_input_valid_witness:
  "list_all literalText [''DROP DATABASE'', ''xp_cmdshell'']
   \<and> valid (validate [''DROP DATABASE'', ''xp_cmdshell''] ''select 1'')
       = (errors (validate [''DROP DATABASE'', ''xp_cmdshell''] ''select 1'') = [])
   \<and> validate [''DROP DATABASE'', ''xp_cmdshell''] [] = \<lparr> valid = True, errors = [] \<rparr>"
proof -
  have h: "list_all literalText [''DROP DATABASE'', ''xp_cmdshell'']"
    by (simp add: literalText_def isWordChar_def isLower_def isUpper_def isDigit_def
        lowerLetters_def upperLetters_def)
  show ?thesis
    using validate_total_empty_input_valid[OF h] h by blast
qed

text \<open>
  Claim C4 as stated asks that the empty input be rejected with a reason. With the
  default blocked keywords, which are literal text, the empty statement is accepted and
  carries no reason.
\<close>

theorem validate_empty_input_counterexample:
  "valid (validate [''DROP DATABASE'', ''xp_cmdshell''] []) = True
   \<and> errors (validate [''DROP DATABASE'', ''xp_cmdshell''] []) = []"
  by (simp add: validate_def Let_def blocked_keyword_not_in_empty empty_input_not_suspicious
      empty_input_not_dynamic)

lemma space_not_letter: "isSpace c \<Longrightarrow> \<not> isLower c \<and> \<not> isUpper c"
  by (auto simp add: isSpace_def isLower_def isUpper_def lowerLetters_def upperLetters_def)

lemma toUpper_upper_not_space: "isUpper (toUpper c) \<Longrightarrow> \<not> isSpace c"
  by (auto simp add: isSpace_def toUpper_def isUpper_def lowerLetters_def upperLetters_def)

lemma trim_keeps_verb:
  assumes ws: "\<forall>c\<in>set ws. isSpace c" and v: "v \<noteq> []" and nv: "\<forall>c\<in>set v. \<not> isSpace c"
  shows "\<exists>r. trim (ws @ v @ rest) = v @ r"
proof -
  obtain a v' where va: "v = a # v'" using v by (cases v) auto
  have "dropWhile isSpace (ws @ v @ rest) = dropWhile isSpace (v @ rest)"
    using ws by (simp add: dropWhile_append)
  also have "\<dots> = v @ rest" using nv va by simp
  finally have d1: "dropWhile isSpace (ws @ v @ rest) = v @ rest" .
  have lastv: "\<not> isSpace (hd (rev v))" using v nv by (simp add: hd_rev)
  have d2: "dropWhile isSpace (rev v) = rev v"
    using v lastv by (cases "rev v") auto
  have "\<exists>q. dropWhile isSpace (rev rest @ rev v) = q @ rev v"
  proof (cases "\<forall>x\<in>set (rev rest). isSpace x")
    case True
    then have "dropWhile isSpace (rev rest @ rev v) = [] @ rev v"
      using d2 by (simp add: dropWhile_append)
    then show ?thesis by blast
  next
    case False
    then have "dropWhile isSpace (rev rest @ rev v) = dropWhile isSpace (rev rest) @ rev v"
      by (auto simp add: dropWhile_append)
    then show ?thesis by blast
  qed
  then obtain q where "dropWhile isSpace (rev rest @ rev v) = q @ rev v" by blast
  then have "trim (ws @ v @ rest) = v @ rev q" by (simp add: trim_def d1)
  then show ?thesis by blast
qed

lemma keywords_upper:
  "k \<in> set writeKeywords \<or> k = ''SELECT'' \<Longrightarrow> k \<noteq> [] \<and> (\<forall>c\<in>set k. isUpper c)"
  by (auto simp add: writeKeywords_def isUpper_def upperLetters_def)

lemma verb_shape:
  assumes "toUpperCase v \<in> set writeKeywords \<or> toUpperCase v = ''SELECT''"
  shows "v \<noteq> [] \<and> (\<forall>c\<in>set v. \<not> isSpace c)"
proof -
  have k: "toUpperCase v \<noteq> [] \<and> (\<forall>c\<in>set (toUpperCase v). isUpper c)"
    by (rule keywords_upper[OF assms])
  then have "v \<noteq> []" by (auto simp add: toUpperCase_def)
  moreover have "\<forall>c\<in>set v. \<not> isSpace c"
    using k toUpper_upper_not_space by (auto simp add: toUpperCase_def)
  ultimately show ?thesis by simp
qed

lemma startsWith_append: "startsWith (k @ r) k"
  by (simp add: startsWith_def)

text \<open>
  Claim C5, as the code has it. \<open>isWriteQuery\<close> trims white space only. For a statement
  made of white space \<open>ws\<close>, a verb \<open>v\<close> and any rest: when \<open>v\<close> is, in any mix of
  upper and lower case, one of INSERT, UPDATE, DELETE, MERGE, TRUNCATE, CREATE, ALTER,
  DROP, the statement is classified as a write (\<open>isWriteQuery\<close> is true); when \<open>v\<close> is
  SELECT in any case, it is classified as a read. Comments are not skipped.
\<close>

theorem isWriteQuery_leading_verb:
  assumes blank: "list_all isSpace ws"
  shows "(toUpperCase v \<in> set writeKeywords \<longrightarrow> isWriteQuery (ws @ v @ rest))
       \<and> (toUpperCase v = ''SELECT'' \<longrightarrow> \<not> isWriteQuery (ws @ v @ rest))"
proof (intro conjI impI)
  have ws: "\<forall>c\<in>set ws. isSpace c" using blank by (simp add: list_all_iff)
  {
  assume a: "toUpperCase v \<in> set writeKeywords"
  then have "v \<noteq> [] \<and> (\<forall>c\<in>set v. \<not> isSpace c)" by (intro verb_shape) simp
  then obtain r where "trim (ws @ v @ rest) = v @ r" using trim_keeps_verb[OF ws] by blast
  then have "toUpperCase (trim (ws @ v @ rest)) = toUpperCase v @ toUpperCase r"
    by (simp add: toUpperCase_def)
  then have "startsWith (toUpperCase (trim (ws @ v @ rest))) (toUpperCase v)"
    by (simp add: startsWith_append)
  then show "isWriteQuery (ws @ v @ rest)"
    using a by (auto simp add: isWriteQuery_def Let_def list_ex_iff)
  }
  {
  assume a: "toUpperCase v = ''SELECT''"
  then have "v \<noteq> [] \<and> (\<forall>c\<in>set v. \<not> isSpace c)" by (intro verb_shape) simp
  then obtain r where "trim (ws @ v @ rest) = v @ r" using trim_keeps_verb[OF ws] by blast
  then have "toUpperCase (trim (ws @ v @ rest)) = ''SELECT'' @ toUpperCase r"
    using a by (simp add: toUpperCase_def)
  then show "\<not> isWriteQuery (ws @ v @ rest)"
    by (simp add: isWriteQuery_def Let_def writeKeywords_def startsWith_def)
  }
qed

theorem isWriteQuery_leading_verb_witness:
  "list_all isSpace ''  '' \<and> toUpperCase ''Insert'' \<in> set writeKeywords
   \<and> isWriteQuery (''  '' @ ''Insert'' @ '' into t values (1)'')
   \<and> toUpperCase ''select'' = ''SELECT''
   \<and> \<not> isWriteQuery (''  '' @ ''select'' @ '' 1'')"
proof -
  have h: "list_all isSpace ''  ''" by (simp add: isSpace_def)
  have i: "toUpperCase ''Insert'' \<in> set writeKeywords"
    by (simp add: toUpperCase_def toUpper_def lowerLetters_def upperLetters_def writeKeywords_def)
  have s: "toUpperCase ''select'' = ''SELECT''"
    by (simp add: toUpperCase_def toUpper_def lowerLetters_def upperLetters_def)
  show ?thesis
    using h i s isWriteQuery_leading_verb[OF h, of "''Insert''" "'' into t values (1)''"]
      isWriteQuery_leading_verb[OF h, of "''select''" "'' 1''"]
    by blast
qed

text \<open>
  Claim C5 as stated trims comments as well. The statement below starts with a block
  comment; its leading verb, once white space and comments are skipped, is INSERT, and
  \<open>isWriteQuery\<close> classifies it as a read.
\<close>

theorem isWriteQuery_comment_counterexample:
  "spec_leadingVerb ''/* c */ INSERT INTO t VALUES (1)'' = ''INSERT''
   \<and> isWriteQuery ''/* c */ INSERT INTO t VALUES (1)'' = False"
  by (simp add: spec_leadingVerb_def isWriteQuery_def toUpperCase_def trim_def isSpace_def
      isWordChar_def isLower_def isUpper_def isDigit_def toUpper_def writeKeywords_def
      startsWith_def lowerLetters_def upperLetters_def)

subsection \<open>VersionManager\<close>

lemma versionQuery_gt: "v \<in> set (versionsOf s n tbl) \<Longrightarrow> v < versionQuery s n tbl"
proof -
  assume a: "v \<in> set (versionsOf s n tbl)"
  then obtain x xs where e: "versionsOf s n tbl = x # xs" by (cases "versionsOf s n tbl") auto
  have "v \<le> Max (set (x # xs))" using a e by (intro Max_ge) auto
  then show ?thesis by (simp add: versionQuery_def e)
qed

lemma versionQuery_Cons:
  "versionsOf s n tbl = y # ys \<Longrightarrow> versionQuery s n tbl = Max (set (y # ys)) + 1"
  by (simp add: versionQuery_def)

lemma versionQuery_cases:
  "versionQuery s n tbl =
     (if versionsOf s n tbl = [] then 1 else Max (set (versionsOf s n tbl)) + 1)"
  by (cases "versionsOf s n tbl") (simp_all add: versionQuery_def)

lemma versionsOf_insert:
  "versionsOf s n (insertQuery s n v d c tbl) = versionsOf s n tbl @ [v]"
  by (simp add: versionsOf_def insertQuery_def sameProcedure_def)

lemma versionsOf_insert_other:
  "(s', n') \<noteq> (s, n) \<Longrightarrow> versionsOf s' n' (insertQuery s n v d c tbl) = versionsOf s' n' tbl"
  by (auto simp add: versionsOf_def insertQuery_def sameProcedure_def)

lemma versions_filter_keep:
  "map Version (filter (sameProcedure s n)
      (filter (\<lambda>r. \<not> (sameProcedure s n r \<and> Version r \<notin> K)) tbl)) =
   filter (\<lambda>v. v \<in> K) (map Version (filter (sameProcedure s n) tbl))"
  by (induction tbl) auto

lemma versionsOf_cleanup:
  "versionsOf s n (cleanupOldVersions N s n tbl) =
     filter (\<lambda>v. v \<in> set (topVersions N s n tbl)) (versionsOf s n tbl)"
  unfolding versionsOf_def cleanupOldVersions_def by (rule versions_filter_keep)

lemma keptOf_cleanup:
  "keptOf s n (cleanupOldVersions N s n tbl) =
     filter (\<lambda>r. Version r \<in> set (topVersions N s n tbl)) (keptOf s n tbl)"
  by (auto simp add: keptOf_def cleanupOldVersions_def intro: filter_cong)

lemma others_cleanup:
  "filter (\<lambda>r. \<not> sameProcedure s n r) (cleanupOldVersions N s n tbl) =
     filter (\<lambda>r. \<not> sameProcedure s n r) tbl"
  by (auto simp add: cleanupOldVersions_def intro: filter_cong)

lemma top_subset: "set (take N (rev (sort xs))) \<subseteq> set (xs :: int list)"
  using set_take_subset[of N "rev (sort xs)"] by auto

lemma length_filter_top:
  assumes "distinct (xs :: int list)"
  shows "length (filter (\<lambda>x. x \<in> set (take N (rev (sort xs)))) xs) = min N (length xs)"
proof -
  let ?K = "take N (rev (sort xs))"
  have d: "distinct ?K" using assms by (simp add: distinct_take)
  have "distinct (filter (\<lambda>x. x \<in> set ?K) xs)" using assms by simp
  then have "length (filter (\<lambda>x. x \<in> set ?K) xs) = card (set (filter (\<lambda>x. x \<in> set ?K) xs))"
    by (rule distinct_card[symmetric])
  also have "set (filter (\<lambda>x. x \<in> set ?K) xs) = set ?K" using top_subset[of N xs] by auto
  also have "card (set ?K) = length ?K" using d by (simp add: distinct_card)
  also have "\<dots> = min N (length xs)" by (simp add: min.commute)
  finally show ?thesis .
qed

lemma top_ge:
  assumes "x \<in> set (take N (rev (sort xs)))" and "y \<in> set (xs :: int list)"
      and "y \<notin> set (take N (rev (sort xs)))"
  shows "y \<le> x"
proof -
  let ?ys = "rev (sort xs)"
  have s: "sorted_wrt (\<lambda>a b. b \<le> a) ?ys" by (simp add: sorted_wrt_rev)
  have "sorted_wrt (\<lambda>a b. b \<le> a) (take N ?ys @ drop N ?ys)"
    using s by (simp only: append_take_drop_id)
  then have *: "\<forall>a\<in>set (take N ?ys). \<forall>b\<in>set (drop N ?ys). b \<le> a"
    unfolding sorted_wrt_append by blast
  have "y \<in> set ?ys" using assms(2) by simp
  then have "y \<in> set (take N ?ys) \<union> set (drop N ?ys)"
    by (metis append_take_drop_id set_append)
  then have "y \<in> set (drop N ?ys)" using assms(3) by simp
  then show ?thesis using * assms(1) by blast
qed

lemma max_in_top:
  assumes "0 < N" and "m \<in> set (xs :: int list)" and "\<forall>x\<in>set xs. x \<le> m"
  shows "m \<in> set (take N (rev (sort xs)))"
proof (rule ccontr)
  assume n: "m \<notin> set (take N (rev (sort xs)))"
  have "set (rev (sort xs)) \<noteq> {}" using assms(2) by auto
  then have "rev (sort xs) \<noteq> []" by (simp del: set_rev set_sort)
  then have "take N (rev (sort xs)) \<noteq> []" using assms(1) by (cases "rev (sort xs)") auto
  then obtain x where x: "x \<in> set (take N (rev (sort xs)))"
    by (cases "take N (rev (sort xs))") auto
  then have "m \<le> x" using top_ge[OF x assms(2) n] by simp
  moreover have "x \<in> set xs" using x top_subset[of N xs] by auto
  ultimately have "x = m" using assms(3) by force
  then show False using x n by simp
qed

lemma fst_saveVersion: "fst (saveVersion N s n d c tbl) = versionQuery s n tbl"
  by (simp add: saveVersion_def Let_def)

lemma snd_saveVersion:
  "snd (saveVersion N s n d c tbl) =
     cleanupOldVersions N s n (insertQuery s n (versionQuery s n tbl) d c tbl)"
  by (simp add: saveVersion_def Let_def)

lemma distinct_after_insert:
  assumes "distinct (versionsOf s n tbl)"
  shows "distinct (versionsOf s n tbl @ [versionQuery s n tbl])"
  using assms versionQuery_gt[of "versionQuery s n tbl" s n tbl] by auto

lemma length_keptOf: "length (keptOf s n tbl) = length (versionsOf s n tbl)"
  by (simp add: keptOf_def versionsOf_def)

lemma kept_count:
  assumes "distinct (versionsOf s n tbl)"
  shows "length (keptOf s n (snd (saveVersion N s n d c tbl))) =
           min N (length (keptOf s n tbl) + 1)"
proof -
  have "length (keptOf s n (snd (saveVersion N s n d c tbl))) =
        length (filter (\<lambda>v. v \<in> set (take N (rev (sort (versionsOf s n tbl @ [versionQuery s n tbl])))))
                  (versionsOf s n tbl @ [versionQuery s n tbl]))"
    by (simp only: length_keptOf snd_saveVersion versionsOf_cleanup topVersions_def
          versionsOf_insert)
  also have "\<dots> = min N (length (versionsOf s n tbl @ [versionQuery s n tbl]))"
    by (rule length_filter_top[OF distinct_after_insert[OF assms]])
  finally show ?thesis by (simp add: length_keptOf)
qed

lemma kept_most_recent:
  assumes k: "k \<in> set (keptOf s n (cleanupOldVersions N s n t1))"
      and r: "r \<in> set (keptOf s n t1)" and gone: "r \<notin> set (cleanupOldVersions N s n t1)"
  shows "Version r < Version k"
proof -
  let ?K = "take N (rev (sort (versionsOf s n t1)))"
  have kK: "Version k \<in> set ?K"
    using k by (simp add: keptOf_cleanup topVersions_def)
  have rv: "Version r \<in> set (versionsOf s n t1)"
    using r by (auto simp add: keptOf_def versionsOf_def)
  have rK: "Version r \<notin> set ?K"
    using r gone by (auto simp add: keptOf_def cleanupOldVersions_def topVersions_def)
  have "Version r \<le> Version k" by (rule top_ge[OF kK rv rK])
  moreover have "Version r \<noteq> Version k" using kK rK by auto
  ultimately show ?thesis by simp
qed

lemma others_saveVersion:
  "filter (\<lambda>r. \<not> sameProcedure s n r) (snd (saveVersion N s n d c tbl)) =
     filter (\<lambda>r. \<not> sameProcedure s n r) tbl"
  by (simp add: snd_saveVersion others_cleanup) (simp add: insertQuery_def sameProcedure_def)

text \<open>
  Distinct version numbers per procedure are an invariant of the table under
  \<open>saveVersion\<close>: it holds of the empty table and every save keeps it, for the saved
  procedure and for every other one.
\<close>

lemma distinct_versions_preserved:
  assumes "distinct (versionsOf s' n' tbl)"
  shows "distinct (versionsOf s' n' (snd (saveVersion N s n d c tbl)))"
proof (cases "(s', n') = (s, n)")
  case True
  then have a: "distinct (versionsOf s n tbl)" and e: "s' = s" "n' = n" using assms by auto
  show ?thesis
    unfolding e snd_saveVersion versionsOf_cleanup versionsOf_insert
    by (rule distinct_filter[OF distinct_after_insert[OF a]])
next
  case False
  have "versionsOf s' n' (cleanupOldVersions N s n t) = versionsOf s' n' t" for t
  proof -
    have "filter (sameProcedure s' n') (cleanupOldVersions N s n t) = filter (sameProcedure s' n') t"
      unfolding cleanupOldVersions_def filter_filter
      using False by (intro filter_cong) (auto simp add: sameProcedure_def)
    then show ?thesis by (simp add: versionsOf_def)
  qed
  then show ?thesis using assms False by (simp add: snd_saveVersion versionsOf_insert_other)
qed

lemma new_row_kept:
  assumes "0 < N"
  shows "\<lparr> SchemaName = s, ProcedureName = n, Version = versionQuery s n tbl,
            Definition = d, Comment = orNull c \<rparr> \<in> set (snd (saveVersion N s n d c tbl))"
proof -
  let ?nv = "versionQuery s n tbl"
  have le: "\<forall>x\<in>set (versionsOf s n tbl @ [?nv]). x \<le> ?nv"
    by (auto dest: versionQuery_gt order.strict_implies_order)
  have "?nv \<in> set (take N (rev (sort (versionsOf s n tbl @ [?nv]))))"
    using max_in_top[OF assms _ le] by simp
  then show ?thesis
    by (simp add: snd_saveVersion cleanupOldVersions_def topVersions_def versionsOf_insert)
       (simp add: insertQuery_def)
qed

text \<open>
  Claim C6, as the code has it. On a table whose version numbers are distinct for
  (schema, name),
  \<open>saveVersion\<close> returns 1 + the greatest existing version of (schema, name), or 1 when
  there is none; it inserts a row with that version; and after its clean-up exactly
  \<open>min N (k + 1)\<close> rows of (schema, name) remain, \<open>k\<close> being their number before, so at
  most the retention count \<open>N\<close>. Every row of (schema, name) that was deleted has a
  lower version than every row that remains (the most recent ones remain), the new row
  remains when \<open>N\<close> is positive, and the rows of other procedures are untouched.
\<close>

theorem saveVersion_next_version_and_retention:
  assumes dist: "distinct (versionsOf s n tbl)"
  shows "fst (saveVersion N s n d c tbl) =
           (if versionsOf s n tbl = [] then 1 else Max (set (versionsOf s n tbl)) + 1)
       \<and> insertQuery s n (fst (saveVersion N s n d c tbl)) d c tbl =
           tbl @ [\<lparr> SchemaName = s, ProcedureName = n,
                    Version = fst (saveVersion N s n d c tbl), Definition = d, Comment = orNull c \<rparr>]
       \<and> snd (saveVersion N s n d c tbl) =
           cleanupOldVersions N s n (insertQuery s n (fst (saveVersion N s n d c tbl)) d c tbl)
       \<and> length (keptOf s n (snd (saveVersion N s n d c tbl))) = min N (length (keptOf s n tbl) + 1)
       \<and> length (keptOf s n (snd (saveVersion N s n d c tbl))) \<le> N
       \<and> (\<forall>k \<in> set (keptOf s n (snd (saveVersion N s n d c tbl))).
            \<forall>r \<in> set (keptOf s n (insertQuery s n (fst (saveVersion N s n d c tbl)) d c tbl)).
               r \<notin> set (snd (saveVersion N s n d c tbl)) \<longrightarrow> Version r < Version k)
       \<and> (0 < N \<longrightarrow> \<lparr> SchemaName = s, ProcedureName = n, Version = fst (saveVersion N s n d c tbl),
                       Definition = d, Comment = orNull c \<rparr> \<in> set (snd (saveVersion N s n d c tbl)))
       \<and> filter (\<lambda>r. \<not> sameProcedure s n r) (snd (saveVersion N s n d c tbl)) =
           filter (\<lambda>r. \<not> sameProcedure s n r) tbl"
proof (intro conjI)
  show "fst (saveVersion N s n d c tbl) =
           (if versionsOf s n tbl = [] then 1 else Max (set (versionsOf s n tbl)) + 1)"
    unfolding fst_saveVersion by (rule versionQuery_cases)
  show "insertQuery s n (fst (saveVersion N s n d c tbl)) d c tbl =
           tbl @ [\<lparr> SchemaName = s, ProcedureName = n,
                    Version = fst (saveVersion N s n d c tbl), Definition = d, Comment = orNull c \<rparr>]"
    by (simp add: insertQuery_def)
  show "snd (saveVersion N s n d c tbl) =
           cleanupOldVersions N s n (insertQuery s n (fst (saveVersion N s n d c tbl)) d c tbl)"
    by (simp add: fst_saveVersion snd_saveVersion)
  show "length (keptOf s n (snd (saveVersion N s n d c tbl))) = min N (length (keptOf s n tbl) + 1)"
    by (rule kept_count[OF dist])
  then show "length (keptOf s n (snd (saveVersion N s n d c tbl))) \<le> N" by simp
  show "\<forall>k \<in> set (keptOf s n (snd (saveVersion N s n d c tbl))).
            \<forall>r \<in> set (keptOf s n (insertQuery s n (fst (saveVersion N s n d c tbl)) d c tbl)).
               r \<notin> set (snd (saveVersion N s n d c tbl)) \<longrightarrow> Version r < Version k"
    unfolding fst_saveVersion snd_saveVersion using kept_most_recent by blast
  show "0 < N \<longrightarrow> \<lparr> SchemaName = s, ProcedureName = n, Version = fst (saveVersion N s n d c tbl),
                       Definition = d, Comment = orNull c \<rparr> \<in> set (snd (saveVersion N s n d c tbl))"
    unfolding fst_saveVersion using new_row_kept by blast
  show "filter (\<lambda>r. \<not> sameProcedure s n r) (snd (saveVersion N s n d c tbl)) =
           filter (\<lambda>r. \<not> sameProcedure s n r) tbl"
    by (rule others_saveVersion)
qed

lemma exampleHistory_versions: "versionsOf ''dbo'' ''p'' exampleHistory = [1, 2]"
  by (simp add: versionsOf_def exampleHistory_def sameProcedure_def)

theorem saveVersion_next_version_and_retention_witness:
  "distinct (versionsOf ''dbo'' ''p'' exampleHistory)
   \<and> fst (saveVersion 2 ''dbo'' ''p'' ''C'' None exampleHistory) = 3
   \<and> length (keptOf ''dbo'' ''p'' (snd (saveVersion 2 ''dbo'' ''p'' ''C'' None exampleHistory))) = 2"
proof -
  have h: "distinct (versionsOf ''dbo'' ''p'' exampleHistory)"
    by (simp add: exampleHistory_versions)
  have k: "length (keptOf ''dbo'' ''p'' exampleHistory) = 2"
    by (simp add: length_keptOf exampleHistory_versions)
  note t = saveVersion_next_version_and_retention[OF h, of 2 "''C''" None]
  have a: "fst (saveVersion 2 ''dbo'' ''p'' ''C'' None exampleHistory) =
             (if versionsOf ''dbo'' ''p'' exampleHistory = [] then 1
              else Max (set (versionsOf ''dbo'' ''p'' exampleHistory)) + 1)"
    using t by blast
  have b: "length (keptOf ''dbo'' ''p'' (snd (saveVersion 2 ''dbo'' ''p'' ''C'' None exampleHistory)))
             = min 2 (length (keptOf ''dbo'' ''p'' exampleHistory) + 1)"
    using t by blast
  show ?thesis
    using h by (simp add: a b k exampleHistory_versions)
qed

text \<open>
  Claim C6 as stated is for every table. The table carries no uniqueness constraint, and
  two calls in flight together leave two rows of version 1 for \<open>dbo.p\<close>. On that
  table \<open>saveVersion\<close> with a retention count of 2 returns version 2 and its clean-up
  deletes nothing: the two greatest version numbers are 2 and 1, every row carries one
  of them, and three rows remain.
\<close>

theorem saveVersion_duplicate_versions_counterexample:
  "map Version (keptOf ''dbo'' ''p'' afterConcurrentSaves) = [1, 1]
   \<and> fst (saveVersion 2 ''dbo'' ''p'' ''C'' None afterConcurrentSaves) = 2
   \<and> map Version (keptOf ''dbo'' ''p''
         (snd (saveVersion 2 ''dbo'' ''p'' ''C'' None afterConcurrentSaves))) = [1, 1, 2]
   \<and> length (keptOf ''dbo'' ''p''
         (snd (saveVersion 2 ''dbo'' ''p'' ''C'' None afterConcurrentSaves))) = 3"
  by (simp add: afterConcurrentSaves_def twoConcurrentSaves_def saveVersion_def Let_def
      versionQuery_def versionsOf_def insertQuery_def keptOf_def sameProcedure_def
      cleanupOldVersions_def topVersions_def orNull_def)

lemma versionQuery_after_save:
  assumes "0 < N"
  shows "versionQuery s n (snd (saveVersion N s n d c tbl)) = versionQuery s n tbl + 1"
proof -
  let ?nv = "versionQuery s n tbl"
  let ?vs1 = "versionsOf s n tbl @ [?nv]"
  let ?K = "take N (rev (sort ?vs1))"
  let ?vs2 = "filter (\<lambda>v. v \<in> set ?K) ?vs1"
  have vs2: "versionsOf s n (snd (saveVersion N s n d c tbl)) = ?vs2"
    by (simp add: saveVersion_def Let_def versionsOf_cleanup topVersions_def versionsOf_insert)
  have le: "\<forall>x\<in>set ?vs1. x \<le> ?nv" by (auto dest: versionQuery_gt order.strict_implies_order)
  have "?nv \<in> set ?K" using max_in_top[OF assms _ le] by simp
  then have mem: "?nv \<in> set ?vs2" by simp
  have le2: "\<forall>x\<in>set ?vs2. x \<le> ?nv" using le by auto
  obtain y ys where e: "?vs2 = y # ys" using mem by (cases ?vs2) auto
  have "Max (set (y # ys)) = ?nv"
    using mem le2 unfolding e by (intro Max_eqI) auto
  then show ?thesis using versionQuery_Cons[OF vs2[unfolded e]] by simp
qed

text \<open>
  Claim C7, as the code has it. With a positive retention count, \<open>K\<close> calls of
  \<open>saveVersion\<close> for one (schema, name) that are issued in turn, each awaited before the
  next, return the \<open>K\<close> numbers \<open>m, m + 1, ..., m + K - 1\<close>, where \<open>m\<close> is 1 + the
  greatest version present before the first call (1 for none): distinct and contiguous.
  Nothing is proved of calls in flight together; the source does not serialise them.
\<close>

theorem saveVersionsInTurn_contiguous:
  assumes "0 < N"
  shows "fst (saveVersionsInTurn N s n ds tbl) =
           map (\<lambda>i. versionQuery s n tbl + int i) [0..<length ds]"
proof (induction ds arbitrary: tbl)
  case Nil
  then show ?case by simp
next
  case (Cons dc ds)
  let ?t1 = "snd (saveVersion N s n (fst dc) (snd dc) tbl)"
  have "fst (saveVersionsInTurn N s n (dc # ds) tbl) =
          versionQuery s n tbl # fst (saveVersionsInTurn N s n ds ?t1)"
    by (simp add: Let_def case_prod_beta fst_saveVersion)
  also have "fst (saveVersionsInTurn N s n ds ?t1) =
          map (\<lambda>i. versionQuery s n ?t1 + int i) [0..<length ds]" by (rule Cons.IH)
  also have "versionQuery s n ?t1 = versionQuery s n tbl + 1"
    by (rule versionQuery_after_save[OF assms])
  finally show ?case
    by (simp add: upt_conv_Cons map_Suc_upt[symmetric] del: upt_Suc)
qed

theorem saveVersionsInTurn_contiguous_witness:
  "(0::nat) < 5
   \<and> fst (saveVersionsInTurn 5 ''dbo'' ''p'' [(''A'', None), (''B'', None), (''C'', None)] [])
       = [1, 2, 3]"
proof -
  have h: "(0::nat) < 5" by simp
  have q: "versionQuery ''dbo'' ''p'' [] = 1" by (simp add: versionQuery_def versionsOf_def)
  show ?thesis
    using saveVersionsInTurn_contiguous[OF h, of "''dbo''" "''p''"
        "[(''A'', None), (''B'', None), (''C'', None)]" "[]"]
    by (simp add: q upt_conv_Cons)
qed

text \<open>
  Claim C7 as stated is about calls issued concurrently. Two calls for \<open>dbo.p\<close> on the
  empty table, whose statements alternate (both read the greatest version before either
  inserts), both return version 1, and the table ends with two rows of version 1.
\<close>

theorem concurrent_saves_same_version_counterexample:
  "map snd (fst (runSchedule 5 [0, 1, 0, 1, 0, 1] twoConcurrentSaves [])) = [Returned 1, Returned 1]
   \<and> map Version (snd (runSchedule 5 [0, 1, 0, 1, 0, 1] twoConcurrentSaves [])) = [1, 1]"
  by (simp add: twoConcurrentSaves_def versionQuery_def versionsOf_def insertQuery_def
      sameProcedure_def cleanupOldVersions_def topVersions_def orNull_def)

subsection \<open>AuditLogger\<close>

lemma flush_resolved: "fst (flush f lg) = Resolved"
  by (simp add: flush_def flushWrite_def Let_def)

lemma flush_keeps_entries:
  "logFile (snd (flush f lg)) @ buffer (snd (flush f lg)) = logFile lg @ buffer lg"
  by (simp add: flush_def flushWrite_def Let_def)

text \<open>
  Claim C9. When the durable write of a flush fails: the promise of \<open>flush\<close> is
  resolved all the same (the failure is caught and logged, not thrown), the log file is
  unchanged and the buffer holds the whole batch again; entries recorded while the
  write was awaited (\<open>later\<close>) come after the batch, which is back at the front. \<open>log\<close>
  called when the write fails resolves too and leaves the new entry in the buffer. With
  any outcome of the write, no entry leaves the log file and the buffer taken together.
\<close>

theorem flush_failure_requeues_batch:
  "fst (flush True lg) = Resolved
   \<and> buffer (snd (flush True lg)) = buffer lg
   \<and> logFile (snd (flush True lg)) = logFile lg
   \<and> errorLog (snd (flush True lg)) =
       (if buffer lg = [] then errorLog lg else errorLog lg @ [''Failed to write audit log''])
   \<and> fst (flushWrite True entries (lg\<lparr> buffer := later \<rparr>)) = Resolved
   \<and> buffer (snd (flushWrite True entries (lg\<lparr> buffer := later \<rparr>))) = entries @ later
   \<and> fst (auditLog bufferSize True now e lg) = Resolved
   \<and> buffer (snd (auditLog bufferSize True now e lg)) =
       buffer lg @ [\<lparr> timestamp = now, input = e \<rparr>]
   \<and> logFile (snd (flush f lg)) @ buffer (snd (flush f lg)) = logFile lg @ buffer lg"
  by (simp add: flush_def flushWrite_def auditLog_def Let_def)

theorem flush_failure_requeues_batch_witness:
  "fst (flush True exampleLogger) = Resolved
   \<and> map timestamp (buffer (snd (flush True exampleLogger))) = [1, 2]
   \<and> logFile (snd (flush True exampleLogger)) = []
   \<and> errorLog (snd (flush True exampleLogger)) = [''Failed to write audit log'']
   \<and> fst (auditLog 3 True 3 (exampleInput ''deploy_sp'') exampleLogger) = Resolved
   \<and> map timestamp (buffer (snd (auditLog 3 True 3 (exampleInput ''deploy_sp'') exampleLogger)))
       = [1, 2, 3]"
  using flush_failure_requeues_batch[of exampleLogger "[]" "[]" 3 3 "exampleInput ''deploy_sp''" True]
  by (simp add: exampleLogger_def)

subsection \<open>TransactionManager\<close>

lemma txCommit_registered:
  assumes "map_of (activeTransactions w) tid = Some txn"
  shows "txCommit f tid w =
     (if f then (Inl (EngineError TxCommit),
                 logLine ''Failed to commit transaction'' (noteEvent TxCommit False w))
      else (Inr (),
            (noteEvent TxCommit True w)\<lparr>
               procedures := foldl (applyStmt (resolveTarget w)) (procedures w) (queries txn),
               activeTransactions := AList.delete tid (activeTransactions w) \<rparr>))"
  using assms by (simp add: txCommit_def)

lemma txRollback_registered:
  assumes "map_of (activeTransactions w) tid = Some txn"
  shows "txRollback f tid w =
     (if f then (Inl (EngineError TxRollback),
                 logLine ''Failed to rollback transaction'' (noteEvent TxRollback False w))
      else (Inr (),
            (noteEvent TxRollback True w)\<lparr>
               activeTransactions := AList.delete tid (activeTransactions w) \<rparr>))"
  using assms by (simp add: txRollback_def)

lemma txRollback_unregistered:
  assumes "map_of (activeTransactions w) tid = None"
  shows "txRollback f tid w = (Inl (TransactionNotFound tid), w)"
  using assms by (simp add: txRollback_def)

lemma txExecute_registered:
  assumes "map_of (activeTransactions w) tid = Some txn"
  shows "txExecute f at tid q w =
     (if f then (Inl (EngineError at), logLine ''Query failed in transaction'' (noteEvent at False w))
      else (Inr (),
            (noteEvent at True w)\<lparr> activeTransactions :=
               AList.update tid (txn\<lparr> queries := queries txn @ [q] \<rparr>) (activeTransactions w) \<rparr>))"
  using assms by (simp add: txExecute_def)

lemma world_simps [simp]:
  "activeTransactions (logLine m w) = activeTransactions w"
  "activeTransactions (noteEvent s b w) = activeTransactions w"
  "procedures (logLine m w) = procedures w"
  "procedures (noteEvent s b w) = procedures w"
  "versionHistory (logLine m w) = versionHistory w"
  "versionHistory (noteEvent s b w) = versionHistory w"
  "resolveTarget (logLine m w) = resolveTarget w"
  "resolveTarget (noteEvent s b w) = resolveTarget w"
  "versionTableExists (logLine m w) = versionTableExists w"
  "versionTableExists (noteEvent s b w) = versionTableExists w"
  "events (logLine m w) = events w"
  "events (noteEvent s b w) = events w @ [(s, b)]"
  "logLines (logLine m w) = logLines w @ [m]"
  "logLines (noteEvent s b w) = logLines w"
  by (simp_all add: logLine_def noteEvent_def)

text \<open>
  Claim C10. For a registered transaction: when the engine rejects the commit (the
  rollback), \<open>commit\<close> (\<open>rollback\<close>) throws the engine's failure and the registry is
  exactly as before, so the transaction is still registered under its identifier with
  its connection, and the stored procedures are unchanged; when the engine accepts, the
  call returns and the entry is deleted. The entry is absent afterwards if and only if
  the engine accepted.
\<close>

theorem commit_rollback_keep_entry_on_engine_failure:
  assumes "map_of (activeTransactions w) tid = Some txn"
  shows "fst (txCommit f tid w) = (if f then Inl (EngineError TxCommit) else Inr ())
       \<and> activeTransactions (snd (txCommit f tid w)) =
           (if f then activeTransactions w else AList.delete tid (activeTransactions w))
       \<and> map_of (activeTransactions (snd (txCommit f tid w))) tid = (if f then Some txn else None)
       \<and> procedures (snd (txCommit True tid w)) = procedures w
       \<and> fst (txRollback f tid w) = (if f then Inl (EngineError TxRollback) else Inr ())
       \<and> activeTransactions (snd (txRollback f tid w)) =
           (if f then activeTransactions w else AList.delete tid (activeTransactions w))
       \<and> map_of (activeTransactions (snd (txRollback f tid w))) tid = (if f then Some txn else None)
       \<and> procedures (snd (txRollback f tid w)) = procedures w"
  using assms
  by (simp add: txCommit_registered[OF assms] txRollback_registered[OF assms] delete_conv')

theorem commit_rollback_keep_entry_on_engine_failure_witness:
  "map_of (activeTransactions oneTransaction) ''t1''
     = Some \<lparr> txnId = ''t1'', connection = ''readwrite'', startTime = 0, queries = [] \<rparr>
   \<and> fst (txCommit True ''t1'' oneTransaction) = Inl (EngineError TxCommit)
   \<and> map fst (activeTransactions (snd (txCommit True ''t1'' oneTransaction))) = [''t1'']
   \<and> fst (txRollback True ''t1'' oneTransaction) = Inl (EngineError TxRollback)
   \<and> map fst (activeTransactions (snd (txRollback True ''t1'' oneTransaction))) = [''t1'']
   \<and> activeTransactions (snd (txCommit False ''t1'' oneTransaction)) = []"
proof -
  have h: "map_of (activeTransactions oneTransaction) ''t1''
     = Some \<lparr> txnId = ''t1'', connection = ''readwrite'', startTime = 0, queries = [] \<rparr>"
    by (simp add: oneTransaction_def emptyWorld_def)
  note t = commit_rollback_keep_entry_on_engine_failure[OF h]
  have a: "activeTransactions oneTransaction =
     [(''t1'', \<lparr> txnId = ''t1'', connection = ''readwrite'', startTime = 0, queries = [] \<rparr>)]"
    by (simp add: oneTransaction_def emptyWorld_def)
  show ?thesis using h t[of True] t[of False] by (simp add: a)
qed

lemma sweepEntry_absent_stays_absent:
  assumes "map_of (activeTransactions w) k = None"
  shows "map_of (activeTransactions (sweepEntry rf now e w)) k = None"
proof (cases "map_of (activeTransactions w) (fst e)")
  case None
  then show ?thesis using assms
    by (simp add: sweepEntry_def txRollback_def)
next
  case (Some t)
  then show ?thesis using assms
    by (simp add: sweepEntry_def txRollback_def delete_conv')
qed

lemma sweep_absent_stays_absent:
  assumes "map_of (activeTransactions w) k = None"
  shows "map_of (activeTransactions (foldl (\<lambda>w' e. sweepEntry rf now e w') w es)) k = None"
  using assms by (induction es arbitrary: w) (simp_all add: sweepEntry_absent_stays_absent)

lemma sweepEntry_removes:
  assumes "TRANSACTION_TIMEOUT < now - startTime t" and "\<not> rf k"
  shows "map_of (activeTransactions (sweepEntry rf now (k, t) w)) k = None"
proof (cases "map_of (activeTransactions w) k")
  case None
  then show ?thesis using assms by (simp add: sweepEntry_def txRollback_def)
next
  case (Some t')
  then show ?thesis using assms by (simp add: sweepEntry_def txRollback_def delete_conv')
qed

lemma sweep_removes:
  assumes "(k, t) \<in> set es" and "TRANSACTION_TIMEOUT < now - startTime t" and "\<not> rf k"
  shows "map_of (activeTransactions (foldl (\<lambda>w' e. sweepEntry rf now e w') w es)) k = None"
  using assms(1)
proof (induction es arbitrary: w)
  case Nil
  then show ?case by simp
next
  case (Cons e es)
  show ?case
  proof (cases "e = (k, t)")
    case True
    have "map_of (activeTransactions (sweepEntry rf now (k, t) w)) k = None"
      using assms(2,3) by (rule sweepEntry_removes)
    then show ?thesis using True by (simp add: sweep_absent_stays_absent)
  next
    case False
    then have "(k, t) \<in> set es" using Cons.prems by simp
    then show ?thesis using Cons.IH by simp
  qed
qed

lemma sweepEntry_keeps_when_engine_fails:
  assumes "rf k"
  shows "map_of (activeTransactions (sweepEntry rf now e w)) k = map_of (activeTransactions w) k"
proof (cases "map_of (activeTransactions w) (fst e)")
  case None
  then show ?thesis by (simp add: sweepEntry_def txRollback_def)
next
  case (Some t)
  show ?thesis
  proof (cases "fst e = k")
    case True
    then show ?thesis using Some assms by (simp add: sweepEntry_def txRollback_def)
  next
    case False
    then show ?thesis using Some by (simp add: sweepEntry_def txRollback_def delete_conv')
  qed
qed

lemma sweep_keeps_when_engine_fails:
  assumes "rf k"
  shows "map_of (activeTransactions (foldl (\<lambda>w' e. sweepEntry rf now e w') w es)) k
           = map_of (activeTransactions w) k"
  using assms by (induction es arbitrary: w) (simp_all add: sweepEntry_keeps_when_engine_fails)

lemma dueSweep_window:
  assumes "constructedAt \<le> start"
  shows "start + TRANSACTION_TIMEOUT < sweepTime constructedAt (dueSweep constructedAt start)
       \<and> sweepTime constructedAt (dueSweep constructedAt start)
           \<le> start + TRANSACTION_TIMEOUT + SWEEP_INTERVAL"
proof -
  define d where "d = start + 300000 - constructedAt"
  have d0: "0 \<le> d" using assms by (simp add: d_def)
  then have q0: "0 \<le> d div 60000" by simp
  have m: "d = (d div 60000) * 60000 + d mod 60000" by simp
  have m0: "0 \<le> d mod 60000" and m1: "d mod 60000 < 60000" by simp_all
  have s: "sweepTime constructedAt (dueSweep constructedAt start)
             = constructedAt + (d div 60000 + 1) * 60000"
    using q0 by (simp add: sweepTime_def dueSweep_def d_def TRANSACTION_TIMEOUT_def
        SWEEP_INTERVAL_def nat_add_distrib)
  have e: "(d div 60000 + 1) * 60000 = d div 60000 * 60000 + 60000"
    by (simp add: algebra_simps)
  have "start + 300000 = constructedAt + d" by (simp add: d_def)
  then show ?thesis
    unfolding s e TRANSACTION_TIMEOUT_def SWEEP_INTERVAL_def using m m0 m1 by linarith
qed

text \<open>
  Claim C8, as the code has it. Let a transaction be registered (no commit or rollback
  has removed it) with a start time not before the construction of the manager. Then a
  sweep fires later than the timeout after its start and no later than the timeout plus
  one sweep interval after it, and after that sweep the transaction is absent from the
  registry if and only if the engine accepted the forced rollback; when the engine
  rejects it, the transaction stays registered. The sweep itself returns no failure:
  for an entry whose transaction is no longer registered, the forced rollback changes
  neither the registry nor the stored procedures and only adds log lines.
\<close>

theorem sweep_removes_timed_out_transaction:
  assumes reg: "map_of (activeTransactions w) tid = Some txn"
      and born: "constructedAt \<le> startTime txn"
  shows "startTime txn + TRANSACTION_TIMEOUT
           < sweepTime constructedAt (dueSweep constructedAt (startTime txn))
       \<and> sweepTime constructedAt (dueSweep constructedAt (startTime txn))
           \<le> startTime txn + TRANSACTION_TIMEOUT + SWEEP_INTERVAL
       \<and> map_of (activeTransactions (cleanupTimedOutTransactions rollbackFails
                   (sweepTime constructedAt (dueSweep constructedAt (startTime txn))) w)) tid
           = (if rollbackFails tid then Some txn else None)
       \<and> (\<forall>gone t now. map_of (activeTransactions w) gone = None \<longrightarrow>
             activeTransactions (sweepEntry rollbackFails now (gone, t) w) = activeTransactions w
           \<and> procedures (sweepEntry rollbackFails now (gone, t) w) = procedures w)"
proof -
  let ?now = "sweepTime constructedAt (dueSweep constructedAt (startTime txn))"
  have win: "startTime txn + TRANSACTION_TIMEOUT < ?now
             \<and> ?now \<le> startTime txn + TRANSACTION_TIMEOUT + SWEEP_INTERVAL"
    by (rule dueSweep_window[OF born])
  have old: "TRANSACTION_TIMEOUT < ?now - startTime txn" using win by linarith
  have mem: "(tid, txn) \<in> set (activeTransactions w)" by (rule map_of_SomeD[OF reg])
  have rem: "map_of (activeTransactions (cleanupTimedOutTransactions rollbackFails ?now w)) tid
               = (if rollbackFails tid then Some txn else None)"
  proof (cases "rollbackFails tid")
    case True
    then show ?thesis
      using reg by (simp add: cleanupTimedOutTransactions_def sweep_keeps_when_engine_fails)
  next
    case False
    then show ?thesis
      using mem old by (simp add: cleanupTimedOutTransactions_def sweep_removes)
  qed
  have gone: "\<forall>gone t now. map_of (activeTransactions w) gone = None \<longrightarrow>
             activeTransactions (sweepEntry rollbackFails now (gone, t) w) = activeTransactions w
           \<and> procedures (sweepEntry rollbackFails now (gone, t) w) = procedures w"
    by (simp add: sweepEntry_def txRollback_def)
  show ?thesis using win rem gone by blast
qed

theorem sweep_removes_timed_out_transaction_witness:
  "map_of (activeTransactions oneTransaction) ''t1''
     = Some \<lparr> txnId = ''t1'', connection = ''readwrite'', startTime = 0, queries = [] \<rparr>
   \<and> (0::int) \<le> startTime \<lparr> txnId = ''t1'', connection = ''readwrite'', startTime = 0, queries = [] \<rparr>
   \<and> sweepTime 0 (dueSweep 0 0) = 360000
   \<and> map_of (activeTransactions (cleanupTimedOutTransactions (\<lambda>i. False) 360000 oneTransaction))
        ''t1'' = None"
proof -
  have h: "map_of (activeTransactions oneTransaction) ''t1''
     = Some \<lparr> txnId = ''t1'', connection = ''readwrite'', startTime = 0, queries = [] \<rparr>"
    by (simp add: oneTransaction_def emptyWorld_def)
  have b: "(0::int) \<le> startTime \<lparr> txnId = ''t1'', connection = ''readwrite'', startTime = 0, queries = [] \<rparr>"
    by simp
  have s: "sweepTime 0 (dueSweep 0 0) = 360000"
    by (simp add: sweepTime_def dueSweep_def TRANSACTION_TIMEOUT_def SWEEP_INTERVAL_def)
  show ?thesis
    using h b s sweep_removes_timed_out_transaction[OF h b, of "\<lambda>i. False"]
    by simp
qed

text \<open>
  Claim C8 as stated has every such transaction removed. A transaction started at time 0
  whose forced rollback the engine rejects is swept at time 360000 (the timeout plus one
  sweep interval) and at every later sweep, and is still registered afterwards; the
  failure is only logged.
\<close>

theorem sweep_engine_failure_counterexample:
  "map fst (activeTransactions (cleanupTimedOutTransactions (\<lambda>i. True) 360000 oneTransaction))
     = [''t1'']
   \<and> logLines (cleanupTimedOutTransactions (\<lambda>i. True) 360000 oneTransaction)
     = [''Transaction timed out, rolling back'', ''Failed to rollback transaction'',
        ''Failed to rollback timed out transaction'']"
  by (simp add: cleanupTimedOutTransactions_def oneTransaction_def emptyWorld_def sweepEntry_def
      txRollback_def TRANSACTION_TIMEOUT_def)

subsection \<open>SPDraftManager: deployDraft\<close>

lemmas io_defs = andThen_def tryCatch_def returnIO_def throwIO_def

lemma eventsSince_append:
  "events w' = events w @ evs \<Longrightarrow> eventsSince w w' = evs"
  by (simp add: eventsSince_def)

lemma noneBefore_append_all:
  "\<forall>x\<in>set xs. x \<noteq> a \<and> \<not> P x \<Longrightarrow> noneBefore a P (xs @ ys) = noneBefore a P ys"
  by (induction xs) auto

lemma noneBefore_append_found:
  "noneBefore a P xs \<Longrightarrow> a \<in> set xs \<Longrightarrow> noneBefore a P (xs @ ys)"
  by (induction xs) auto

lemma noneBefore_none: "\<forall>x\<in>set xs. \<not> P x \<Longrightarrow> noneBefore a P xs"
  by (induction xs) auto

text \<open>What \<open>saveVersionIO\<close> does to the state, whatever the engine rejects.\<close>

lemma saveVersionIO_frame:
  assumes "saveVersionIO e cfg s n d c w = (r, w')"
  shows "procedures w' = procedures w \<and> activeTransactions w' = activeTransactions w
       \<and> resolveTarget w' = resolveTarget w
       \<and> (\<exists>evs. events w' = events w @ evs
             \<and> (\<forall>ev\<in>set evs. \<not> inTransaction ev \<and> fst ev \<noteq> DropDraft)
             \<and> (\<forall>v. r = Inr v \<longrightarrow> (InsertVersionRow, True) \<in> set evs))
       \<and> (\<forall>v. r = Inr v \<longrightarrow>
             v = versionQuery s n (versionHistory w)
           \<and> versionHistory w' = snd (saveVersion (maxVersions cfg) s n d c (versionHistory w)))"
  using assms
  by (cases "versionTableExists w"; cases "engineFails e EnsureVersionTable";
      cases "engineFails e NextVersionQuery"; cases "engineFails e InsertVersionRow";
      cases "engineFails e CleanupVersions")
     (auto simp add: saveVersionIO_def ensureVersionTable_def runQuery_def io_defs
        saveVersion_def Let_def inTransaction_def)

lemma getDraftDefinition_eq:
  "getDraftDefinition e cfg name w =
     (if engineFails e ReadDraftDefinition
      then (Inr None, logLine ''Query execution failed'' (noteEvent ReadDraftDefinition False w))
      else (Inr (procedures w (draftSchema cfg, name)), noteEvent ReadDraftDefinition True w))"
  by (simp add: getDraftDefinition_def runQuery_def io_defs)

lemma getCurrentDefinition_eq:
  "getCurrentDefinition e schema name w =
     (if engineFails e ReadCurrentDefinition
      then (Inr None, logLine ''Query execution failed'' (noteEvent ReadCurrentDefinition False w))
      else (Inr (procedures w (schema, name)), noteEvent ReadCurrentDefinition True w))"
  by (simp add: getCurrentDefinition_def runQuery_def io_defs)

lemma getDraftDefinition_cases:
  obtains w0 where
    "getDraftDefinition e cfg name w =
       (Inr (if engineFails e ReadDraftDefinition then None
             else procedures w (draftSchema cfg, name)), w0)"
    "procedures w0 = procedures w" "activeTransactions w0 = activeTransactions w"
    "resolveTarget w0 = resolveTarget w" "versionHistory w0 = versionHistory w"
    "events w0 = events w @ [(ReadDraftDefinition, \<not> engineFails e ReadDraftDefinition)]"
  by (cases "engineFails e ReadDraftDefinition") (simp_all add: getDraftDefinition_eq)

lemma getCurrentDefinition_cases:
  obtains wc where
    "getCurrentDefinition e schema name w =
       (Inr (if engineFails e ReadCurrentDefinition then None
             else procedures w (schema, name)), wc)"
    "procedures wc = procedures w" "activeTransactions wc = activeTransactions w"
    "resolveTarget wc = resolveTarget w" "versionHistory wc = versionHistory w"
    "events wc = events w @ [(ReadCurrentDefinition, \<not> engineFails e ReadCurrentDefinition)]"
  by (cases "engineFails e ReadCurrentDefinition") (simp_all add: getCurrentDefinition_eq)

text \<open>
  The first part of \<open>deployDraft\<close> leaves the stored procedures and the registry alone
  and hands no statement of a transaction to the engine; when it returns, the draft it
  returns is the stored one, and when it has read a current definition, the version
  table holds the result of \<open>saveVersion\<close> for it.
\<close>

lemma deployBackup_frame:
  assumes "deployBackup e cfg schema name comment w = (r, w1)"
  shows "procedures w1 = procedures w \<and> activeTransactions w1 = activeTransactions w
       \<and> resolveTarget w1 = resolveTarget w
       \<and> (\<exists>evs. events w1 = events w @ evs
             \<and> (\<forall>ev\<in>set evs. \<not> inTransaction ev \<and> fst ev \<noteq> DropDraft))
       \<and> (\<forall>d. r = Inr d \<longrightarrow> procedures w (draftSchema cfg, name) = Some d \<and> d \<noteq> [])"
proof -
  obtain w0 where g: "getDraftDefinition e cfg name w =
       (Inr (if engineFails e ReadDraftDefinition then None
             else procedures w (draftSchema cfg, name)), w0)"
    and f0: "procedures w0 = procedures w" "activeTransactions w0 = activeTransactions w"
      "resolveTarget w0 = resolveTarget w"
      "events w0 = events w @ [(ReadDraftDefinition, \<not> engineFails e ReadDraftDefinition)]"
    by (rule getDraftDefinition_cases)
  obtain wc where c: "getCurrentDefinition e schema name w0 =
       (Inr (if engineFails e ReadCurrentDefinition then None
             else procedures w0 (schema, name)), wc)"
    and fc: "procedures wc = procedures w0" "activeTransactions wc = activeTransactions w0"
      "resolveTarget wc = resolveTarget w0"
      "events wc = events w0 @ [(ReadCurrentDefinition, \<not> engineFails e ReadCurrentDefinition)]"
    by (rule getCurrentDefinition_cases)
  let ?dd = "if engineFails e ReadDraftDefinition then None
             else procedures w (draftSchema cfg, name)"
  let ?cd = "if engineFails e ReadCurrentDefinition then None else procedures w0 (schema, name)"
  show ?thesis
  proof (cases "truthy ?dd")
    case False
    then have "deployBackup e cfg schema name comment w = (Inl (DraftNotFound name), w0)"
      by (auto simp add: deployBackup_def io_defs g truthy_def split: option.splits if_splits)
    then show ?thesis using assms f0 by (auto simp add: inTransaction_def)
  next
    case True
    then obtain draftText where dt: "?dd = Some draftText" "draftText \<noteq> []"
      by (auto simp add: truthy_def split: option.splits if_splits)
    then have stored: "procedures w (draftSchema cfg, name) = Some draftText"
      by (simp split: if_splits)
    have g': "getDraftDefinition e cfg name w = (Inr (Some draftText), w0)"
      using g dt(1) by simp
    show ?thesis
    proof (cases "truthy ?cd")
      case False
      then have "deployBackup e cfg schema name comment w = (Inr draftText, wc)"
        using dt(2)
        by (auto simp add: deployBackup_def io_defs g' c truthy_def split: option.splits if_splits)
      then show ?thesis using assms f0 fc stored dt by (auto simp add: inTransaction_def)
    next
      case True
      then obtain currentText where ct: "?cd = Some currentText" "currentText \<noteq> []"
        by (auto simp add: truthy_def split: option.splits if_splits)
      have c': "getCurrentDefinition e schema name w0 = (Inr (Some currentText), wc)"
        using c ct(1) by simp
      obtain rs ws where s: "saveVersionIO e cfg schema name currentText
                               (Some (commentOrDefault comment)) wc = (rs, ws)"
        by (cases "saveVersionIO e cfg schema name currentText
                     (Some (commentOrDefault comment)) wc") auto
      have b: "deployBackup e cfg schema name comment w =
                 (case rs of Inl x \<Rightarrow> Inl x | Inr v \<Rightarrow> Inr draftText, ws)"
        using dt(2) ct(2) by (simp add: deployBackup_def io_defs g' c' s split: sum.splits)
      note fr = saveVersionIO_frame[OF s]
      from fr obtain evs where evs: "events ws = events wc @ evs"
           "\<forall>ev\<in>set evs. \<not> inTransaction ev \<and> fst ev \<noteq> DropDraft" by blast
      have "events w1 = events w @
              ([(ReadDraftDefinition, \<not> engineFails e ReadDraftDefinition),
                (ReadCurrentDefinition, \<not> engineFails e ReadCurrentDefinition)] @ evs)"
        using assms b evs(1) f0 fc by simp
      moreover have "\<forall>ev\<in>set ([(ReadDraftDefinition, \<not> engineFails e ReadDraftDefinition),
                (ReadCurrentDefinition, \<not> engineFails e ReadCurrentDefinition)] @ evs).
                \<not> inTransaction ev \<and> fst ev \<noteq> DropDraft"
        using evs(2) by (auto simp add: inTransaction_def)
      ultimately have ex: "\<exists>evs. events w1 = events w @ evs
           \<and> (\<forall>ev\<in>set evs. \<not> inTransaction ev \<and> fst ev \<noteq> DropDraft)" by blast
      have "procedures w1 = procedures w \<and> activeTransactions w1 = activeTransactions w
             \<and> resolveTarget w1 = resolveTarget w"
        using assms b fr f0 fc by simp
      moreover have "\<forall>d. r = Inr d \<longrightarrow> procedures w (draftSchema cfg, name) = Some d \<and> d \<noteq> []"
        using assms b stored dt by (auto split: sum.splits)
      ultimately show ?thesis using ex by blast
    qed
  qed
qed

lemma deployBackup_saves_current:
  assumes cur: "procedures w (schema, name) = Some currentText" "currentText \<noteq> []"
      and readable: "\<not> engineFails e ReadCurrentDefinition"
      and ok: "deployBackup e cfg schema name comment w = (Inr d, w1)"
  shows "versionHistory w1 = snd (saveVersion (maxVersions cfg) schema name currentText
                                   (Some (commentOrDefault comment)) (versionHistory w))
       \<and> (InsertVersionRow, True) \<in> set (eventsSince w w1)"
proof -
  obtain w0 where g: "getDraftDefinition e cfg name w =
       (Inr (if engineFails e ReadDraftDefinition then None
             else procedures w (draftSchema cfg, name)), w0)"
    and f0: "procedures w0 = procedures w" "versionHistory w0 = versionHistory w"
      "events w0 = events w @ [(ReadDraftDefinition, \<not> engineFails e ReadDraftDefinition)]"
    by (rule getDraftDefinition_cases)
  obtain wc where c: "getCurrentDefinition e schema name w0 =
       (Inr (if engineFails e ReadCurrentDefinition then None
             else procedures w0 (schema, name)), wc)"
    and fc: "versionHistory wc = versionHistory w0"
      "events wc = events w0 @ [(ReadCurrentDefinition, \<not> engineFails e ReadCurrentDefinition)]"
    by (rule getCurrentDefinition_cases)
  have c': "getCurrentDefinition e schema name w0 = (Inr (Some currentText), wc)"
    using c cur readable f0 by simp
  obtain rs ws where s: "saveVersionIO e cfg schema name currentText
                           (Some (commentOrDefault comment)) wc = (rs, ws)"
    by (cases "saveVersionIO e cfg schema name currentText
                 (Some (commentOrDefault comment)) wc") auto
  have "\<exists>v. rs = Inr v \<and> ws = w1"
    using ok cur(2)
    by (auto simp add: deployBackup_def io_defs g c' s split: option.splits sum.splits if_splits)
  then obtain v where v: "rs = Inr v" "ws = w1" by blast
  note fr = saveVersionIO_frame[OF s]
  from fr v obtain evs where evs: "events w1 = events wc @ evs" "(InsertVersionRow, True) \<in> set evs"
    by blast
  have "events w1 = events w @ ([(ReadDraftDefinition, \<not> engineFails e ReadDraftDefinition),
                                 (ReadCurrentDefinition, True)] @ evs)"
    using evs(1) fc f0 readable by simp
  then have "eventsSince w w1 = [(ReadDraftDefinition, \<not> engineFails e ReadDraftDefinition),
                                 (ReadCurrentDefinition, True)] @ evs"
    by (rule eventsSince_append)
  then have "(InsertVersionRow, True) \<in> set (eventsSince w w1)" using evs(2) by simp
  moreover have "versionHistory w1 = snd (saveVersion (maxVersions cfg) schema name currentText
                                   (Some (commentOrDefault comment)) (versionHistory w))"
    using fr v fc f0 by simp
  ultimately show ?thesis by simp
qed

lemmas swap_defs = deploySwap_def deployTry_def deleteDraft_def runQuery_def txBegin_def
  txExecute_def txCommit_def txRollback_def andThen_def tryCatch_def returnIO_def throwIO_def
  Let_def update_conv' delete_conv' eventsSince_def

text \<open>
  The second part of \<open>deployDraft\<close>, whatever the engine rejects: it leaves the version
  table alone, it only adds events, the draft is dropped only after a commit that the
  engine accepted, and when it returns without failure the draft is gone.
\<close>

lemma deploySwap_frame:
  "versionHistory (snd (deploySwap e cfg schema name d w1)) = versionHistory w1
   \<and> events (snd (deploySwap e cfg schema name d w1))
       = events w1 @ eventsSince w1 (snd (deploySwap e cfg schema name d w1))
   \<and> noneBefore (TxCommit, True) (\<lambda>ev. fst ev = DropDraft)
       (eventsSince w1 (snd (deploySwap e cfg schema name d w1)))
   \<and> (\<forall>ev\<in>set (eventsSince w1 (snd (deploySwap e cfg schema name d w1))).
         ev \<noteq> (InsertVersionRow, True))
   \<and> (fst (deploySwap e cfg schema name d w1) = Inr () \<longrightarrow>
         procedures (snd (deploySwap e cfg schema name d w1)) (draftSchema cfg, name) = None)"
  by (cases "engineFails e TxBegin"; cases "engineFails e TxDrop"; cases "engineFails e TxCreate";
      cases "engineFails e TxCommit"; cases "engineFails e DropDraft";
      cases "engineFails e TxRollback")
     (simp_all add: swap_defs)

lemma deploySwap_failure:
  assumes begun: "\<not> engineFails e TxBegin"
      and swapFails: "engineFails e TxDrop \<or> engineFails e TxCreate \<or> engineFails e TxCommit"
  shows "fst (deploySwap e cfg schema name d w1) =
           Inl (EngineError (if engineFails e TxRollback then TxRollback
                             else if engineFails e TxDrop then TxDrop
                             else if engineFails e TxCreate then TxCreate else TxCommit))
       \<and> procedures (snd (deploySwap e cfg schema name d w1)) = procedures w1
       \<and> versionHistory (snd (deploySwap e cfg schema name d w1)) = versionHistory w1
       \<and> last (events (snd (deploySwap e cfg schema name d w1)))
           = (TxRollback, \<not> engineFails e TxRollback)
       \<and> map_of (activeTransactions (snd (deploySwap e cfg schema name d w1))) (newTransactionId e)
           = (if engineFails e TxRollback
              then Some \<lparr> txnId = newTransactionId e, connection = ''readwrite'',
                          startTime = clock e,
                          queries = (if engineFails e TxDrop then []
                                     else if engineFails e TxCreate
                                     then [DropProcedureIfExists schema name]
                                     else [DropProcedureIfExists schema name,
                                           Batch (Some (rewriteForProductionSchema cfg d schema name))]) \<rparr>
              else None)"
  using assms
  by (cases "engineFails e TxDrop"; cases "engineFails e TxCreate";
      cases "engineFails e TxCommit"; cases "engineFails e TxRollback")
     (simp_all add: swap_defs)

lemma deployDraft_split:
  "deployBackup e cfg schema name comment w = (Inr d, w1) \<Longrightarrow>
   deployDraft e cfg schema name comment w = deploySwap e cfg schema name d w1"
  "deployBackup e cfg schema name comment w = (Inl x, w1) \<Longrightarrow>
   deployDraft e cfg schema name comment w = (Inl x, w1)"
  by (simp_all add: deployDraft_def andThen_def)

text \<open>
  Claim C1, as the code has it. Let \<open>deployDraft\<close> have read the draft and saved the
  backup (its first part returned, in state \<open>w1\<close>) and begun its transaction, and let
  the engine reject the drop, the create or the commit. Then \<open>deployDraft\<close> fails; the
  last statement it hands to the engine is the rollback of its transaction; every
  stored procedure, the production routine and the draft among them, has the definition
  it had before the call, and the draft is there; the version table is as the backup
  left it. The transaction is gone from the registry when the engine accepts the
  rollback. When the engine rejects the rollback too, the failure thrown is the
  rollback's and the transaction stays registered with the statements it ran.
\<close>

theorem deployDraft_swap_failure:
  assumes backup: "deployBackup e cfg schema name comment w = (Inr draftText, w1)"
      and begun: "\<not> engineFails e TxBegin"
      and swapFails: "engineFails e TxDrop \<or> engineFails e TxCreate \<or> engineFails e TxCommit"
  shows "fst (deployDraft e cfg schema name comment w) =
           Inl (EngineError (if engineFails e TxRollback then TxRollback
                             else if engineFails e TxDrop then TxDrop
                             else if engineFails e TxCreate then TxCreate else TxCommit))
       \<and> last (events (snd (deployDraft e cfg schema name comment w)))
           = (TxRollback, \<not> engineFails e TxRollback)
       \<and> procedures (snd (deployDraft e cfg schema name comment w)) = procedures w
       \<and> procedures (snd (deployDraft e cfg schema name comment w)) (draftSchema cfg, name)
           = Some draftText
       \<and> versionHistory (snd (deployDraft e cfg schema name comment w)) = versionHistory w1
       \<and> (map_of (activeTransactions (snd (deployDraft e cfg schema name comment w)))
             (newTransactionId e) = None) = (\<not> engineFails e TxRollback)"
proof -
  note f = deployBackup_frame[OF backup]
  note s = deploySwap_failure[OF begun swapFails, of cfg schema name draftText w1]
  have d: "deployDraft e cfg schema name comment w = deploySwap e cfg schema name draftText w1"
    by (rule deployDraft_split(1)[OF backup])
  have p: "procedures (snd (deployDraft e cfg schema name comment w)) = procedures w"
    using s f by (simp add: d)
  have dr: "procedures w (draftSchema cfg, name) = Some draftText" using f by blast
  have reg: "(map_of (activeTransactions (snd (deployDraft e cfg schema name comment w)))
             (newTransactionId e) = None) = (\<not> engineFails e TxRollback)"
    using s by (simp add: d)
  show ?thesis using s p dr reg by (simp add: d)
qed

lemma saveVersion_adds_one_row:
  assumes "0 < N"
  shows "filter (\<lambda>row. row \<notin> set tbl) (snd (saveVersion N s n d c tbl)) =
           [\<lparr> SchemaName = s, ProcedureName = n, Version = versionQuery s n tbl,
              Definition = d, Comment = orNull c \<rparr>]"
proof -
  let ?new = "\<lparr> SchemaName = s, ProcedureName = n, Version = versionQuery s n tbl,
                Definition = d, Comment = orNull c \<rparr>"
  let ?Q = "\<lambda>r. \<not> (sameProcedure s n r
                \<and> Version r \<notin> set (topVersions N s n (insertQuery s n (versionQuery s n tbl) d c tbl)))"
  have kept: "?new \<in> set (snd (saveVersion N s n d c tbl))" by (rule new_row_kept[OF assms])
  have e: "snd (saveVersion N s n d c tbl) = filter ?Q tbl @ filter ?Q [?new]"
    by (simp add: snd_saveVersion cleanupOldVersions_def insertQuery_def)
  have fresh: "?new \<notin> set tbl"
  proof
    assume "?new \<in> set tbl"
    then have "Version ?new \<in> set (versionsOf s n tbl)"
      by (force simp add: versionsOf_def sameProcedure_def)
    then show False using versionQuery_gt[of "versionQuery s n tbl" s n tbl] by simp
  qed
  have q: "?Q ?new"
  proof (rule ccontr)
    assume "\<not> ?Q ?new"
    then have "filter ?Q [?new] = []" by simp
    then have "?new \<in> set tbl" using kept e by auto
    then show False using fresh by simp
  qed
  have "filter (\<lambda>row. row \<notin> set tbl) (filter ?Q tbl) = []" by (simp add: filter_empty_conv)
  then show ?thesis using q fresh unfolding e by simp
qed

text \<open>
  Claim C2, as the code has it. Let a production definition exist and be read by
  \<open>deployDraft\<close> (the engine accepts the read), and let the retention count be positive.
  Then, whatever else the engine rejects: no statement of the transaction (begin, drop,
  create, commit, rollback) is handed to the engine before the insert of the backup row
  was accepted; the draft is dropped only after a commit that the engine accepted;
  whenever a statement of the transaction was issued, the version table holds the
  backup of the outgoing definition; and when \<open>deployDraft\<close> returns without failure,
  the version table has exactly one row it did not have before, that backup, and the
  draft is gone.
\<close>

theorem deployDraft_backup_before_swap:
  assumes cur: "procedures w (schema, name) = Some currentText"
      and nonempty: "currentText \<noteq> []"
      and readable: "\<not> engineFails e ReadCurrentDefinition"
      and retention: "0 < maxVersions cfg"
  shows "noneBefore (InsertVersionRow, True) inTransaction
           (eventsSince w (snd (deployDraft e cfg schema name comment w)))
       \<and> noneBefore (TxCommit, True) (\<lambda>ev. fst ev = DropDraft)
           (eventsSince w (snd (deployDraft e cfg schema name comment w)))
       \<and> (list_ex inTransaction (eventsSince w (snd (deployDraft e cfg schema name comment w)))
            \<longrightarrow> \<lparr> SchemaName = schema, ProcedureName = name,
                   Version = versionQuery schema name (versionHistory w),
                   Definition = currentText, Comment = Some (commentOrDefault comment) \<rparr>
                 \<in> set (versionHistory (snd (deployDraft e cfg schema name comment w))))
       \<and> (fst (deployDraft e cfg schema name comment w) = Inr () \<longrightarrow>
            filter (\<lambda>row. row \<notin> set (versionHistory w))
              (versionHistory (snd (deployDraft e cfg schema name comment w)))
              = [\<lparr> SchemaName = schema, ProcedureName = name,
                   Version = versionQuery schema name (versionHistory w),
                   Definition = currentText, Comment = Some (commentOrDefault comment) \<rparr>]
          \<and> procedures (snd (deployDraft e cfg schema name comment w)) (draftSchema cfg, name)
              = None)"
proof -
  let ?new = "\<lparr> SchemaName = schema, ProcedureName = name,
                Version = versionQuery schema name (versionHistory w),
                Definition = currentText, Comment = Some (commentOrDefault comment) \<rparr>"
  have on: "orNull (Some (commentOrDefault comment)) = Some (commentOrDefault comment)"
    by (simp add: orNull_def commentOrDefault_def split: option.splits)
  obtain r w1 where b: "deployBackup e cfg schema name comment w = (r, w1)"
    by (cases "deployBackup e cfg schema name comment w") auto
  note f = deployBackup_frame[OF b]
  from f obtain evs where evs: "events w1 = events w @ evs"
      "\<forall>ev\<in>set evs. \<not> inTransaction ev \<and> fst ev \<noteq> DropDraft" by blast
  show ?thesis
  proof (cases r)
    case (Inl x)
    then have d: "deployDraft e cfg schema name comment w = (Inl x, w1)"
      using b by (simp add: deployDraft_split)
    have ev: "eventsSince w w1 = evs" by (rule eventsSince_append[OF evs(1)])
    have "noneBefore (InsertVersionRow, True) inTransaction evs"
      using evs(2) by (intro noneBefore_none) auto
    moreover have "noneBefore (TxCommit, True) (\<lambda>ev. fst ev = DropDraft) evs"
      using evs(2) by (intro noneBefore_none) auto
    moreover have "\<not> list_ex inTransaction evs" using evs(2) by (simp add: list_ex_iff)
    ultimately show ?thesis by (simp add: d ev)
  next
    case (Inr draftText)
    then have b': "deployBackup e cfg schema name comment w = (Inr draftText, w1)"
      using b by simp
    let ?r = "deploySwap e cfg schema name draftText w1"
    have d: "deployDraft e cfg schema name comment w = ?r"
      by (rule deployDraft_split(1)[OF b'])
    note sv = deployBackup_saves_current[OF cur nonempty readable b']
    note sw = deploySwap_frame[of e cfg schema name draftText w1]
    have sw1: "versionHistory (snd ?r) = versionHistory w1" using sw by blast
    have sw2: "events (snd ?r) = events w1 @ eventsSince w1 (snd ?r)" using sw by blast
    have sw3: "noneBefore (TxCommit, True) (\<lambda>ev. fst ev = DropDraft) (eventsSince w1 (snd ?r))"
      using sw by blast
    have ev1: "eventsSince w w1 = evs" by (rule eventsSince_append[OF evs(1)])
    have ins: "(InsertVersionRow, True) \<in> set evs" using sv ev1 by simp
    have "events (snd ?r) = events w @ (evs @ eventsSince w1 (snd ?r))"
      using sw2 evs(1) by (simp only: append_assoc)
    then have ev: "eventsSince w (snd ?r) = evs @ eventsSince w1 (snd ?r)"
      by (rule eventsSince_append)
    have n1: "noneBefore (InsertVersionRow, True) inTransaction (evs @ eventsSince w1 (snd ?r))"
    proof (rule noneBefore_append_found[OF _ ins])
      show "noneBefore (InsertVersionRow, True) inTransaction evs"
        using evs(2) by (intro noneBefore_none) auto
    qed
    have "\<forall>x\<in>set evs. x \<noteq> (TxCommit, True) \<and> \<not> (fst x = DropDraft)"
      using evs(2) by (auto simp add: inTransaction_def)
    then have n2: "noneBefore (TxCommit, True) (\<lambda>ev. fst ev = DropDraft)
                     (evs @ eventsSince w1 (snd ?r))"
      using sw3 by (simp add: noneBefore_append_all)
    have h: "versionHistory (snd ?r) = snd (saveVersion (maxVersions cfg) schema name currentText
                                   (Some (commentOrDefault comment)) (versionHistory w))"
      using sw1 sv by simp
    have mem: "?new \<in> set (versionHistory (snd ?r))"
      unfolding h using new_row_kept[OF retention, of schema name "versionHistory w" currentText
          "Some (commentOrDefault comment)"] by (simp add: on)
    have one: "filter (\<lambda>row. row \<notin> set (versionHistory w)) (versionHistory (snd ?r)) = [?new]"
      unfolding h using saveVersion_adds_one_row[OF retention, of "versionHistory w" schema name
          currentText "Some (commentOrDefault comment)"] by (simp add: on)
    have gone: "fst ?r = Inr () \<longrightarrow> procedures (snd ?r) (draftSchema cfg, name) = None"
      using sw by blast
    show ?thesis using n1 n2 mem one gone by (simp add: d ev)
  qed
qed

subsection \<open>SPDraftManager: the claims at concrete states\<close>

lemma stateAB_procedures:
  "procedures stateAB (''dbo'', ''p'') = Some bodyA"
  "procedures stateAB (''dbo_draft'', ''p'') = Some draftB"
  by (simp_all add: stateAB_def withProcedure_def)

theorem deployDraft_swap_failure_witness:
  "fst (deployBackup (failingAt [TxCreate] ''t2'') exampleConfig ''dbo'' ''p'' None stateAB)
     = Inr draftB
   \<and> \<not> engineFails (failingAt [TxCreate] ''t2'') TxBegin
   \<and> engineFails (failingAt [TxCreate] ''t2'') TxCreate
   \<and> fst (deployDraft (failingAt [TxCreate] ''t2'') exampleConfig ''dbo'' ''p'' None stateAB)
       = Inl (EngineError TxCreate)
   \<and> procedures (snd (deployDraft (failingAt [TxCreate] ''t2'') exampleConfig ''dbo'' ''p'' None
                        stateAB)) (''dbo'', ''p'') = Some bodyA
   \<and> procedures (snd (deployDraft (failingAt [TxCreate] ''t2'') exampleConfig ''dbo'' ''p'' None
                        stateAB)) (''dbo_draft'', ''p'') = Some draftB
   \<and> map Definition (versionHistory (snd (deployDraft (failingAt [TxCreate] ''t2'') exampleConfig
                        ''dbo'' ''p'' None stateAB))) = [bodyA]
   \<and> map_of (activeTransactions (snd (deployDraft (failingAt [TxCreate] ''t2'') exampleConfig
                        ''dbo'' ''p'' None stateAB))) ''t2'' = None"
proof -
  let ?e = "failingAt [TxCreate] ''t2''"
  let ?w1 = "snd (deployBackup ?e exampleConfig ''dbo'' ''p'' None stateAB)"
  have f: "fst (deployBackup ?e exampleConfig ''dbo'' ''p'' None stateAB) = Inr draftB"
    by code_simp
  have h1: "deployBackup ?e exampleConfig ''dbo'' ''p'' None stateAB = (Inr draftB, ?w1)"
    using f by (simp add: prod_eq_iff)
  have h2: "\<not> engineFails ?e TxBegin" by (simp add: failingAt_def)
  have c: "engineFails ?e TxCreate" by (simp add: failingAt_def)
  have h3: "engineFails ?e TxDrop \<or> engineFails ?e TxCreate \<or> engineFails ?e TxCommit"
    using c by simp
  have r: "\<not> engineFails ?e TxRollback" "\<not> engineFails ?e TxDrop"
    by (simp_all add: failingAt_def)
  have v: "map Definition (versionHistory ?w1) = [bodyA]" by code_simp
  have n: "newTransactionId ?e = ''t2''" "draftSchema exampleConfig = ''dbo_draft''"
    by (simp_all add: failingAt_def exampleConfig_def)
  note t = deployDraft_swap_failure[OF h1 h2 h3]
  show ?thesis using t f h2 c r v n stateAB_procedures by simp
qed

text \<open>
  Claim C1 as stated has the transaction rolled back whenever the swap fails. Here the
  engine rejects the create and then the rollback: \<open>deployDraft\<close> throws the failure of
  the rollback, and its transaction is still registered, holding the drop it ran.
\<close>

theorem deployDraft_rollback_failure_counterexample:
  "fst (deployDraft (failingAt [TxCreate, TxRollback] ''t2'') exampleConfig ''dbo'' ''p'' None
          stateAB) = Inl (EngineError TxRollback)
   \<and> map fst (activeTransactions (snd (deployDraft (failingAt [TxCreate, TxRollback] ''t2'')
          exampleConfig ''dbo'' ''p'' None stateAB))) = [''t2'']
   \<and> map (queries \<circ> snd) (activeTransactions (snd (deployDraft
          (failingAt [TxCreate, TxRollback] ''t2'') exampleConfig ''dbo'' ''p'' None stateAB)))
       = [[DropProcedureIfExists ''dbo'' ''p'']]"
  by code_simp

theorem deployDraft_backup_before_swap_witness:
  "procedures stateAB (''dbo'', ''p'') = Some bodyA
   \<and> bodyA \<noteq> []
   \<and> \<not> engineFails (failingAt [] ''t2'') ReadCurrentDefinition
   \<and> 0 < maxVersions exampleConfig
   \<and> fst (deployDraft (failingAt [] ''t2'') exampleConfig ''dbo'' ''p'' None stateAB) = Inr ()
   \<and> filter (\<lambda>row. row \<notin> set (versionHistory stateAB))
        (versionHistory (snd (deployDraft (failingAt [] ''t2'') exampleConfig ''dbo'' ''p'' None
           stateAB)))
       = [\<lparr> SchemaName = ''dbo'', ProcedureName = ''p'', Version = 1, Definition = bodyA,
            Comment = Some ''Pre-deployment backup'' \<rparr>]
   \<and> procedures (snd (deployDraft (failingAt [] ''t2'') exampleConfig ''dbo'' ''p'' None stateAB))
        (''dbo_draft'', ''p'') = None
   \<and> eventsSince stateAB (snd (deployDraft (failingAt [] ''t2'') exampleConfig ''dbo'' ''p'' None
        stateAB))
       = [(ReadDraftDefinition, True), (ReadCurrentDefinition, True), (EnsureVersionTable, True),
          (NextVersionQuery, True), (InsertVersionRow, True), (CleanupVersions, True),
          (TxBegin, True), (TxDrop, True), (TxCreate, True), (TxCommit, True), (DropDraft, True)]"
proof -
  let ?e = "failingAt [] ''t2''"
  have h1: "procedures stateAB (''dbo'', ''p'') = Some bodyA" by (rule stateAB_procedures)
  have h2: "bodyA \<noteq> []" by (simp add: bodyA_def)
  have h3: "\<not> engineFails ?e ReadCurrentDefinition" by (simp add: failingAt_def)
  have h4: "0 < maxVersions exampleConfig" by (simp add: exampleConfig_def)
  have ok: "fst (deployDraft ?e exampleConfig ''dbo'' ''p'' None stateAB) = Inr ()"
    by code_simp
  have ev: "eventsSince stateAB (snd (deployDraft ?e exampleConfig ''dbo'' ''p'' None stateAB))
       = [(ReadDraftDefinition, True), (ReadCurrentDefinition, True), (EnsureVersionTable, True),
          (NextVersionQuery, True), (InsertVersionRow, True), (CleanupVersions, True),
          (TxBegin, True), (TxDrop, True), (TxCreate, True), (TxCommit, True), (DropDraft, True)]"
    by code_simp
  have q: "versionQuery ''dbo'' ''p'' (versionHistory stateAB) = 1"
    by (simp add: stateAB_def withProcedure_def emptyWorld_def versionQuery_def versionsOf_def)
  have cd: "commentOrDefault None = ''Pre-deployment backup''"
    by (simp add: commentOrDefault_def)
  have ds: "draftSchema exampleConfig = ''dbo_draft''" by (simp add: exampleConfig_def)
  note t = deployDraft_backup_before_swap[OF h1 h2 h3 h4, of None]
  show ?thesis using t h1 h2 h3 h4 ok ev q cd ds by simp
qed

text \<open>
  Claim C2 as stated has the backup saved in every execution in which a production
  definition exists. Here production holds a definition and the engine rejects the
  query that reads it: \<open>getCurrentDefinition\<close> swallows the failure, \<open>deployDraft\<close>
  saves nothing, replaces the production routine and returns without failure, and the
  version table is empty afterwards.
\<close>

theorem deployDraft_unread_production_counterexample:
  "procedures stateAB (''dbo'', ''p'') = Some bodyA
   \<and> fst (deployDraft (failingAt [ReadCurrentDefinition] ''t2'') exampleConfig ''dbo'' ''p'' None
            stateAB) = Inr ()
   \<and> procedures (snd (deployDraft (failingAt [ReadCurrentDefinition] ''t2'') exampleConfig
            ''dbo'' ''p'' None stateAB)) (''dbo'', ''p'') = Some bodyB
   \<and> versionHistory (snd (deployDraft (failingAt [ReadCurrentDefinition] ''t2'') exampleConfig
            ''dbo'' ''p'' None stateAB)) = []
   \<and> eventsSince stateAB (snd (deployDraft (failingAt [ReadCurrentDefinition] ''t2'')
            exampleConfig ''dbo'' ''p'' None stateAB))
       = [(ReadDraftDefinition, True), (ReadCurrentDefinition, False), (TxBegin, True),
          (TxDrop, True), (TxCreate, True), (TxCommit, True), (DropDraft, True)]"
  by code_simp

subsection \<open>SPDraftManager: rollback\<close>

lemma definition_is_undefined: "queryText (property (rowObject r) ''definition'') = None"
  by (simp add: property_def rowObject_def queryText_def)

lemmas rollback_defs = rollback_def rollbackTry_def getVersion_def getLatestVersion_def
  runQuery_def txBegin_def txExecute_def txCommit_def txRollback_def andThen_def tryCatch_def
  returnIO_def throwIO_def Let_def update_conv' delete_conv' property_def rowObject_def
  queryText_def

text \<open>
  \<open>rollback\<close> never hands the stored definition to the engine: the row it reads has the
  key \<open>Definition\<close> and it reads the property \<open>definition\<close>. Whatever version is asked
  for and whatever the engine rejects, the production routine afterwards is either
  what it was before the call or absent.
\<close>

lemma rollback_restores_nothing:
  "procedures (snd (rollback e schema name version w)) (schema, name) = None
   \<or> procedures (snd (rollback e schema name version w)) (schema, name)
       = procedures w (schema, name)"
  by (cases "engineFails e ReadVersion"; cases "engineFails e ReadLatestVersion";
      cases "engineFails e TxBegin"; cases "engineFails e TxDrop";
      cases "engineFails e TxRestore"; cases "engineFails e TxCommit";
      cases "engineFails e TxRollback")
     (auto simp add: rollback_defs split: option.splits list.splits)

text \<open>
  Claim C3 at a concrete input. Definition A is deployed, then definition B; the
  production routine is B and the version table holds A as version 1. \<open>rollback\<close>
  without a version then reads that row, runs the drop, passes \<open>undefined\<close> as the
  statement that should restore A, and commits: when the engine accepts every
  statement the production routine is gone, and when it rejects the undefined statement
  the transaction is rolled back and the production routine is still B. In neither
  case is it A.
\<close>

theorem rollback_after_two_deploys_does_not_restore:
  "procedures afterDeployA (''dbo'', ''p'') = Some bodyA
   \<and> procedures afterDeployAB (''dbo'', ''p'') = Some bodyB
   \<and> map Definition (versionHistory afterDeployAB) = [bodyA]
   \<and> fst (rollback (failingAt [] ''t3'') ''dbo'' ''p'' None afterDeployAB) = Inr ()
   \<and> procedures (snd (rollback (failingAt [] ''t3'') ''dbo'' ''p'' None afterDeployAB))
        (''dbo'', ''p'') = None
   \<and> fst (rollback (failingAt [TxRestore] ''t3'') ''dbo'' ''p'' None afterDeployAB)
        = Inl (EngineError TxRestore)
   \<and> procedures (snd (rollback (failingAt [TxRestore] ''t3'') ''dbo'' ''p'' None afterDeployAB))
        (''dbo'', ''p'') = Some bodyB
   \<and> bodyA \<noteq> bodyB"
  by code_simp

end
